theory Spec2Isabelle
  imports Main "HOL-Library.AList" "HOL-Library.Sublist"
begin

section \<open>Paths\<close>

text \<open>
  An absolute, normalised \<open>PortablePath\<close> is kept as the list of its segments, the root
  being \<open>[]\<close>. Relative paths (the name of a dependency, the target of a symbolic link,
  the prefix of a fetch result) stay the strings the TypeScript handles, and
  \<open>ppath.join\<close> reads their segments.
\<close>

type_synonym Filename = string
type_synonym PortablePath = "Filename list"

fun segments :: "string \<Rightarrow> Filename list" where
  "segments [] = [[]]"
| "segments (c # cs) =
     (if c = CHR ''/'' then [] # segments cs
      else (case segments cs of [] \<Rightarrow> [[c]] | s # ss \<Rightarrow> (c # s) # ss))"

definition joinSegment :: "PortablePath \<Rightarrow> Filename \<Rightarrow> PortablePath" where
  "joinSegment p seg =
     (if seg = [] \<or> seg = ''.'' then p
      else if seg = ''..'' then butlast p
      else p @ [seg])"

text \<open>
  Modelled from the spec: \<open>ppath.join\<close>, \<open>ppath.resolve\<close>, \<open>ppath.dirname\<close> and
  \<open>ppath.relative\<close> of the path library (not part of the sources at hand), with the
  POSIX meaning: joining normalises empty, \<open>.\<close> and \<open>..\<close> segments; the desired link
  target is "a path relative to the dependency directory".
\<close>

definition ppath_join :: "PortablePath \<Rightarrow> string \<Rightarrow> PortablePath" where
  "ppath_join p rel = foldl joinSegment p (segments rel)"

definition ppath_resolve :: "PortablePath \<Rightarrow> string \<Rightarrow> PortablePath" where
  "ppath_resolve p rel =
     (case rel of
        c # cs \<Rightarrow> if c = CHR ''/'' then ppath_join [] rel else ppath_join p rel
      | [] \<Rightarrow> p)"

definition ppath_dirname :: "PortablePath \<Rightarrow> PortablePath" where
  "ppath_dirname p = butlast p"

fun dropCommon :: "PortablePath \<Rightarrow> PortablePath \<Rightarrow> PortablePath \<times> PortablePath" where
  "dropCommon (x # xs) (y # ys) = (if x = y then dropCommon xs ys else (x # xs, y # ys))"
| "dropCommon xs ys = (xs, ys)"

fun joinWithSlash :: "Filename list \<Rightarrow> string" where
  "joinWithSlash [] = []"
| "joinWithSlash [s] = s"
| "joinWithSlash (s # t # ss) = s @ ''/'' @ joinWithSlash (t # ss)"

definition ppath_relative :: "PortablePath \<Rightarrow> PortablePath \<Rightarrow> string" where
  "ppath_relative from to =
     (case dropCommon from to of
        (ups, downs) \<Rightarrow> joinWithSlash (replicate (length ups) ''..'' @ downs))"

definition startsWith :: "string \<Rightarrow> string \<Rightarrow> bool" where
  "startsWith s pre = (take (length pre) s = pre)"

section \<open>Data model\<close>

type_synonym LocatorHash = string

record Ident =
  scope :: "string option"
  name :: string

record Descriptor = Ident +
  descriptorRange :: string

record Locator = Ident +
  reference :: string
  locatorHash :: LocatorHash

datatype LinkType = HARD | SOFT | OtherLinkType

record Package = Locator +
  linkType :: LinkType

text \<open>
  Modelled from the spec: \<open>structUtils.stringifyIdent\<close> and
  \<open>structUtils.stringifyLocator\<close> (not part of the sources at hand). An identity is an
  optional scope and a name; a dependency named \<open>@scope/name\<close> produces a two-level
  directory entry.
\<close>

definition stringifyIdent :: "'a Ident_scheme \<Rightarrow> string" where
  "stringifyIdent i =
     (case scope i of
        Some s \<Rightarrow> ''@'' @ s @ ''/'' @ name i
      | None \<Rightarrow> name i)"

definition stringifyLocator :: "Locator \<Rightarrow> string" where
  "stringifyLocator l = stringifyIdent l @ ''@'' @ reference l"

text \<open>
  The other functions of \<open>structUtils\<close> that the linker calls are parameters of the
  model: every theorem holds whatever they compute.
\<close>

record StructUtils =
  isVirtualLocator :: "Locator \<Rightarrow> bool"
  devirtualizeLocator :: "Locator \<Rightarrow> Locator"
  slugifyLocator :: "Locator \<Rightarrow> Filename"

text \<open>
  \<open>LinkOptions\<close>: what the installer reads of \<open>opts.project\<close>, namely \<open>cwd\<close>, the
  configuration value \<open>nodeLinker\<close> and \<open>tryWorkspaceByLocator\<close> (which yields a
  workspace, here its directory, or null).
\<close>

record LinkOptions =
  cwd :: PortablePath
  nodeLinker :: string
  tryWorkspaceByLocator :: "Locator \<Rightarrow> PortablePath option"

section \<open>The filesystem interface\<close>

datatype Error = Error string | ErrnoError string

definition code :: "Error \<Rightarrow> string option" where
  "code e = (case e of Error _ \<Rightarrow> None | ErrnoError c \<Rightarrow> Some c)"

datatype node = File string | Symlink string | Directory "(Filename \<times> node) list"

datatype Dirent = Dirent (entryName: Filename) (isSymbolicLink: bool) (isDirectory: bool)

record FakeFS =
  getRealPath :: PortablePath
  root :: node

record FetchResult =
  packageFs :: FakeFS
  prefixPath :: string

text \<open>
  \<open>xfs\<close>, the filesystem the linker edits, is a parameter: a disk of some type \<open>'fs\<close>
  and the seven operations the linker calls, each answering with an errno code or with
  its result. The arguments of \<open>copyPromise\<close> are the destination, the source, the
  filesystem holding the source and the \<open>overwrite\<close> option; a call is recorded with
  its paths, and a copy with the option as well.
\<close>

record 'fs xfs =
  xfs_mkdirPromise :: "PortablePath \<Rightarrow> bool \<Rightarrow> 'fs \<Rightarrow> string + 'fs"
  xfs_copyPromise :: "PortablePath \<Rightarrow> string \<Rightarrow> FakeFS \<Rightarrow> bool \<Rightarrow> 'fs \<Rightarrow> string + 'fs"
  xfs_mkdirpPromise :: "PortablePath \<Rightarrow> 'fs \<Rightarrow> string + 'fs"
  xfs_readdirPromise :: "PortablePath \<Rightarrow> 'fs \<Rightarrow> string + Dirent list"
  xfs_readlinkPromise :: "PortablePath \<Rightarrow> 'fs \<Rightarrow> string + string"
  xfs_removePromise :: "PortablePath \<Rightarrow> 'fs \<Rightarrow> string + 'fs"
  xfs_symlinkPromise :: "string \<Rightarrow> PortablePath \<Rightarrow> 'fs \<Rightarrow> string + 'fs"

datatype xfs_call =
    MkdirCall PortablePath
  | CopyCall PortablePath string bool
  | MkdirpCall PortablePath
  | ReaddirCall PortablePath
  | ReadlinkCall PortablePath
  | RemoveCall PortablePath
  | SymlinkCall string PortablePath

section \<open>The installer\<close>

datatype PromiseState = Pending | Fulfilled | Rejected Error

record CopyPromise =
  copyPkgPath :: PortablePath
  copyFetchResult :: FetchResult
  promiseState :: PromiseState

text \<open>
  The state of a run: the fields of \<open>PnpmInstaller\<close> (\<open>opts\<close>, \<open>locations\<close>,
  \<open>pendingCopies\<close>, \<open>customData\<close>) and the world it acts on, namely the \<open>disk\<close> and
  the list of the \<open>xfs\<close> \<open>calls\<close> made so far, oldest first.
\<close>

record ('fs, 'c) PnpmInstaller =
  opts :: LinkOptions
  locations :: "LocatorHash \<rightharpoonup> PortablePath"
  pendingCopies :: "CopyPromise list"
  customData :: "'c option"
  disk :: 'fs
  calls :: "xfs_call list"

record InstallResult =
  packageLocation :: PortablePath
  buildDirective :: "unit option"

subsection \<open>Calls of the filesystem\<close>

definition editDisk ::
  "xfs_call \<Rightarrow> ('fs \<Rightarrow> string + 'fs) \<Rightarrow> ('fs, 'c) PnpmInstaller \<Rightarrow>
   ('fs, 'c) PnpmInstaller \<times> (Error + unit)" where
  "editDisk c f s =
     (case f (disk s) of
        Inl errno \<Rightarrow> (s\<lparr>calls := calls s @ [c]\<rparr>, Inl (ErrnoError errno))
      | Inr d \<Rightarrow> (s\<lparr>calls := calls s @ [c], disk := d\<rparr>, Inr ()))"

definition readDisk ::
  "xfs_call \<Rightarrow> ('fs \<Rightarrow> string + 'a) \<Rightarrow> ('fs, 'c) PnpmInstaller \<Rightarrow>
   ('fs, 'c) PnpmInstaller \<times> (Error + 'a)" where
  "readDisk c f s =
     (case f (disk s) of
        Inl errno \<Rightarrow> (s\<lparr>calls := calls s @ [c]\<rparr>, Inl (ErrnoError errno))
      | Inr r \<Rightarrow> (s\<lparr>calls := calls s @ [c]\<rparr>, Inr r))"

definition mkdirPromise ::
  "'fs xfs \<Rightarrow> PortablePath \<Rightarrow> bool \<Rightarrow> ('fs, 'c) PnpmInstaller \<Rightarrow>
   ('fs, 'c) PnpmInstaller \<times> (Error + unit)" where
  "mkdirPromise X p recursive = editDisk (MkdirCall p) (xfs_mkdirPromise X p recursive)"

definition copyPromise ::
  "'fs xfs \<Rightarrow> PortablePath \<Rightarrow> string \<Rightarrow> FakeFS \<Rightarrow> bool \<Rightarrow> ('fs, 'c) PnpmInstaller \<Rightarrow>
   ('fs, 'c) PnpmInstaller \<times> (Error + unit)" where
  "copyPromise X dst src baseFs overwrite =
     editDisk (CopyCall dst src overwrite) (xfs_copyPromise X dst src baseFs overwrite)"

definition mkdirpPromise ::
  "'fs xfs \<Rightarrow> PortablePath \<Rightarrow> ('fs, 'c) PnpmInstaller \<Rightarrow>
   ('fs, 'c) PnpmInstaller \<times> (Error + unit)" where
  "mkdirpPromise X p = editDisk (MkdirpCall p) (xfs_mkdirpPromise X p)"

definition readdirPromise ::
  "'fs xfs \<Rightarrow> PortablePath \<Rightarrow> ('fs, 'c) PnpmInstaller \<Rightarrow>
   ('fs, 'c) PnpmInstaller \<times> (Error + Dirent list)" where
  "readdirPromise X p = readDisk (ReaddirCall p) (xfs_readdirPromise X p)"

definition readlinkPromise ::
  "'fs xfs \<Rightarrow> PortablePath \<Rightarrow> ('fs, 'c) PnpmInstaller \<Rightarrow>
   ('fs, 'c) PnpmInstaller \<times> (Error + string)" where
  "readlinkPromise X p = readDisk (ReadlinkCall p) (xfs_readlinkPromise X p)"

definition removePromise ::
  "'fs xfs \<Rightarrow> PortablePath \<Rightarrow> ('fs, 'c) PnpmInstaller \<Rightarrow>
   ('fs, 'c) PnpmInstaller \<times> (Error + unit)" where
  "removePromise X p = editDisk (RemoveCall p) (xfs_removePromise X p)"

definition symlinkPromise ::
  "'fs xfs \<Rightarrow> string \<Rightarrow> PortablePath \<Rightarrow> ('fs, 'c) PnpmInstaller \<Rightarrow>
   ('fs, 'c) PnpmInstaller \<times> (Error + unit)" where
  "symlinkPromise X target p = editDisk (SymlinkCall target p) (xfs_symlinkPromise X target p)"

subsection \<open>The linker\<close>

definition supportsPackage :: "LinkOptions \<Rightarrow> bool" where
  "supportsPackage options = (nodeLinker options = ''pnpm'')"


definition attachCustomData ::
  "'c option \<Rightarrow> ('fs, 'c) PnpmInstaller \<Rightarrow> ('fs, 'c) PnpmInstaller" where
  "attachCustomData v s = s\<lparr>customData := v\<rparr>"

subsection \<open>installPackage\<close>

definition installPackageSoft ::
  "Package \<Rightarrow> FetchResult \<Rightarrow> ('fs, 'c) PnpmInstaller \<Rightarrow>
   ('fs, 'c) PnpmInstaller \<times> (Error + InstallResult)" where
  "installPackageSoft pkg fetchResult s =
     (let pkgPath = ppath_resolve (getRealPath (packageFs fetchResult)) (prefixPath fetchResult)
      in (s\<lparr>locations := (locations s)(locatorHash pkg \<mapsto> pkgPath)\<rparr>,
          Inr \<lparr>packageLocation = pkgPath, buildDirective = None\<rparr>))"

definition installPackageHard ::
  "StructUtils \<Rightarrow> Package \<Rightarrow> FetchResult \<Rightarrow> ('fs, 'c) PnpmInstaller \<Rightarrow>
   ('fs, 'c) PnpmInstaller \<times> (Error + InstallResult)" where
  "installPackageHard U pkg fetchResult s =
     (let pkgKey = slugifyLocator U (Locator.truncate pkg);
          pkgPath = foldl ppath_join (cwd (opts s)) [''node_modules'', ''.store'', pkgKey]
      in (s\<lparr>locations := (locations s)(locatorHash pkg \<mapsto> pkgPath),
            pendingCopies := pendingCopies s @
              [\<lparr>copyPkgPath = pkgPath, copyFetchResult = fetchResult,
                promiseState = Pending\<rparr>]\<rparr>,
          Inr \<lparr>packageLocation = pkgPath, buildDirective = None\<rparr>))"

definition installPackage ::
  "StructUtils \<Rightarrow> Package \<Rightarrow> FetchResult \<Rightarrow> ('fs, 'c) PnpmInstaller \<Rightarrow>
   ('fs, 'c) PnpmInstaller \<times> (Error + InstallResult)" where
  "installPackage U pkg fetchResult s =
     (case linkType pkg of
        SOFT \<Rightarrow> installPackageSoft pkg fetchResult s
      | HARD \<Rightarrow> installPackageHard U pkg fetchResult s
      | OtherLinkType \<Rightarrow> (s, Inl (Error ''Assertion failed: Unsupported package link type'')))"

subsection \<open>The pending copies\<close>

text \<open>
  The body of the promise that \<open>installPackageHard\<close> pushes: create the slot, then copy
  the package into it with \<open>overwrite: false\<close>.
\<close>

definition copyTask ::
  "'fs xfs \<Rightarrow> PortablePath \<Rightarrow> FetchResult \<Rightarrow> ('fs, 'c) PnpmInstaller \<Rightarrow>
   ('fs, 'c) PnpmInstaller \<times> (Error + unit)" where
  "copyTask X pkgPath fetchResult s =
     (case mkdirPromise X pkgPath True s of
        (s1, Inl e) \<Rightarrow> (s1, Inl e)
      | (s1, Inr _) \<Rightarrow>
          copyPromise X pkgPath (prefixPath fetchResult) (packageFs fetchResult) False s1)"

text \<open>
  A promise of \<open>pendingCopies\<close> is pending, fulfilled or rejected. A pending one may
  settle at any moment before it is awaited; \<open>settle\<close> runs the tasks that are still
  pending when \<open>Promise.all\<close> is awaited, in the order of the array, a rejected task
  stopping none of the others. The array is never emptied, so a later await finds the
  same settled promises again.
\<close>

fun settle ::
  "'fs xfs \<Rightarrow> CopyPromise list \<Rightarrow> ('fs, 'c) PnpmInstaller \<Rightarrow>
   CopyPromise list \<times> ('fs, 'c) PnpmInstaller" where
  "settle X [] s = ([], s)"
| "settle X (p # ps) s =
     (case promiseState p of
        Pending \<Rightarrow>
          (case copyTask X (copyPkgPath p) (copyFetchResult p) s of
             (s1, r) \<Rightarrow>
               (case settle X ps s1 of
                  (ps', s2) \<Rightarrow>
                    (p\<lparr>promiseState := (case r of Inl e \<Rightarrow> Rejected e | Inr _ \<Rightarrow> Fulfilled)\<rparr>
                       # ps', s2)))
      | _ \<Rightarrow> (case settle X ps s of (ps', s2) \<Rightarrow> (p # ps', s2)))"

fun firstRejection :: "CopyPromise list \<Rightarrow> Error option" where
  "firstRejection [] = None"
| "firstRejection (p # ps) =
     (case promiseState p of Rejected e \<Rightarrow> Some e | _ \<Rightarrow> firstRejection ps)"

definition awaitPendingCopies ::
  "'fs xfs \<Rightarrow> ('fs, 'c) PnpmInstaller \<Rightarrow> ('fs, 'c) PnpmInstaller \<times> (Error + unit)" where
  "awaitPendingCopies X s =
     (case settle X (pendingCopies s) s of
        (ps, s1) \<Rightarrow>
          (s1\<lparr>pendingCopies := ps\<rparr>,
           case firstRejection ps of Some e \<Rightarrow> Inl e | None \<Rightarrow> Inr ()))"

subsection \<open>attachInternalDependencies\<close>

definition isPnpmVirtualCompatible ::
  "StructUtils \<Rightarrow> ('fs, 'c) PnpmInstaller \<Rightarrow> Locator \<Rightarrow> bool" where
  "isPnpmVirtualCompatible U s locator =
     (\<not> isVirtualLocator U locator \<or> tryWorkspaceByLocator (opts s) locator = None)"

text \<open>
  \<open>extraneous\<close> is a JavaScript \<open>Map\<close> from names to directory entries: \<open>set\<close> keeps the
  place of a key that is already there and appends a new one (\<open>AList.update\<close>), and
  \<open>keys()\<close> runs in that order.
\<close>

type_synonym Extraneous = "(string \<times> Dirent) list"

fun recordSubEntries :: "Filename \<Rightarrow> Dirent list \<Rightarrow> Extraneous \<Rightarrow> Extraneous" where
  "recordSubEntries n [] extraneous = extraneous"
| "recordSubEntries n (subEntry # subEntries) extraneous =
     recordSubEntries n subEntries
       (AList.update (n @ ''/'' @ entryName subEntry) subEntry extraneous)"

text \<open>
  The loop over the entries of the dependency directory. An exception leaves the loop
  with the entries recorded so far: the result is the state, the map and the error
  thrown, if any.
\<close>

fun recordEntries ::
  "'fs xfs \<Rightarrow> PortablePath \<Rightarrow> Dirent list \<Rightarrow> Extraneous \<Rightarrow> ('fs, 'c) PnpmInstaller \<Rightarrow>
   ('fs, 'c) PnpmInstaller \<times> Extraneous \<times> Error option" where
  "recordEntries X nmPath [] extraneous s = (s, extraneous, None)"
| "recordEntries X nmPath (entry # entries) extraneous s =
     (if startsWith (entryName entry) ''.'' then recordEntries X nmPath entries extraneous s
      else if startsWith (entryName entry) ''@'' then
        (case readdirPromise X (ppath_join nmPath (entryName entry)) s of
           (s1, Inl e) \<Rightarrow> (s1, extraneous, Some e)
         | (s1, Inr subEntries) \<Rightarrow>
             recordEntries X nmPath entries
               (recordSubEntries (entryName entry) subEntries extraneous) s1)
      else recordEntries X nmPath entries
             (AList.update (entryName entry) entry extraneous) s)"

text \<open>The \<open>try\<close> block, before the \<open>catch\<close>.\<close>

definition tryListing ::
  "'fs xfs \<Rightarrow> PortablePath \<Rightarrow> ('fs, 'c) PnpmInstaller \<Rightarrow>
   ('fs, 'c) PnpmInstaller \<times> Extraneous \<times> Error option" where
  "tryListing X nmPath s =
     (case readdirPromise X nmPath s of
        (s1, Inl e) \<Rightarrow> (s1, [], Some e)
      | (s1, Inr entries) \<Rightarrow> recordEntries X nmPath entries [] s1)"

text \<open>The \<open>catch\<close>: an error whose code is ENOENT is dropped, any other is thrown again.\<close>

definition listExtraneous ::
  "'fs xfs \<Rightarrow> PortablePath \<Rightarrow> ('fs, 'c) PnpmInstaller \<Rightarrow>
   ('fs, 'c) PnpmInstaller \<times> Extraneous \<times> Error option" where
  "listExtraneous X nmPath s =
     (case tryListing X nmPath s of
        (s1, extraneous, None) \<Rightarrow> (s1, extraneous, None)
      | (s1, extraneous, Some err) \<Rightarrow>
          if code err \<noteq> Some ''ENOENT'' then (s1, extraneous, Some err)
          else (s1, extraneous, None))"

definition targetDependency ::
  "StructUtils \<Rightarrow> ('fs, 'c) PnpmInstaller \<Rightarrow> Locator \<Rightarrow> Locator" where
  "targetDependency U s dependency =
     (if isPnpmVirtualCompatible U s dependency then dependency
      else devirtualizeLocator U dependency)"

definition depSrcPathOf ::
  "StructUtils \<Rightarrow> ('fs, 'c) PnpmInstaller \<Rightarrow> Locator \<Rightarrow> PortablePath option" where
  "depSrcPathOf U s dependency = locations s (locatorHash (targetDependency U s dependency))"

definition notRegistered :: "Locator \<Rightarrow> Error" where
  "notRegistered l =
     Error (''Assertion failed: Expected the package to have been registered (''
            @ stringifyLocator l @ '')'')"

text \<open>Lines 141 and 142: create the parent directories, then the link.\<close>

definition createLink ::
  "'fs xfs \<Rightarrow> string \<Rightarrow> PortablePath \<Rightarrow> ('fs, 'c) PnpmInstaller \<Rightarrow>
   ('fs, 'c) PnpmInstaller \<times> Error option" where
  "createLink X depLinkPath depDstPath s =
     (case mkdirpPromise X (ppath_dirname depDstPath) s of
        (s1, Inl e) \<Rightarrow> (s1, Some e)
      | (s1, Inr _) \<Rightarrow>
          (case symlinkPromise X depLinkPath depDstPath s1 of
             (s2, Inl e) \<Rightarrow> (s2, Some e)
           | (s2, Inr _) \<Rightarrow> (s2, None)))"

text \<open>Line 137 and what follows it: remove the stale entry, then create the link.\<close>

definition replaceLink ::
  "'fs xfs \<Rightarrow> string \<Rightarrow> PortablePath \<Rightarrow> ('fs, 'c) PnpmInstaller \<Rightarrow>
   ('fs, 'c) PnpmInstaller \<times> Error option" where
  "replaceLink X depLinkPath depDstPath s =
     (case removePromise X depDstPath s of
        (s1, Inl e) \<Rightarrow> (s1, Some e)
      | (s1, Inr _) \<Rightarrow> createLink X depLinkPath depDstPath s1)"

text \<open>The body of the loop over the dependencies, for one pair.\<close>

definition linkDependency ::
  "'fs xfs \<Rightarrow> StructUtils \<Rightarrow> PortablePath \<Rightarrow> Descriptor \<times> Locator \<Rightarrow> Extraneous \<Rightarrow>
   ('fs, 'c) PnpmInstaller \<Rightarrow> ('fs, 'c) PnpmInstaller \<times> Extraneous \<times> Error option" where
  "linkDependency X U nmPath pair extraneous s =
     (case pair of
        (descriptor, dependency) \<Rightarrow>
          (case depSrcPathOf U s dependency of
             None \<Rightarrow> (s, extraneous, Some (notRegistered dependency))
           | Some depSrcPath \<Rightarrow>
               (let depName = stringifyIdent descriptor;
                    depDstPath = ppath_join nmPath depName;
                    depLinkPath = ppath_relative (ppath_dirname depDstPath) depSrcPath;
                    existing = map_of extraneous depName;
                    extraneous1 = AList.delete depName extraneous
                in case existing of
                     Some entry \<Rightarrow>
                       if isSymbolicLink entry then
                         (case readlinkPromise X depDstPath s of
                            (s1, Inl e) \<Rightarrow> (s1, extraneous1, Some e)
                          | (s1, Inr target) \<Rightarrow>
                              if target = depLinkPath then (s1, extraneous1, None)
                              else (case replaceLink X depLinkPath depDstPath s1 of
                                      (s2, r) \<Rightarrow> (s2, extraneous1, r)))
                       else (case replaceLink X depLinkPath depDstPath s of
                               (s2, r) \<Rightarrow> (s2, extraneous1, r))
                   | None \<Rightarrow>
                       (case createLink X depLinkPath depDstPath s of
                          (s2, r) \<Rightarrow> (s2, extraneous1, r)))))"

fun linkDependencies ::
  "'fs xfs \<Rightarrow> StructUtils \<Rightarrow> PortablePath \<Rightarrow> (Descriptor \<times> Locator) list \<Rightarrow> Extraneous \<Rightarrow>
   ('fs, 'c) PnpmInstaller \<Rightarrow> ('fs, 'c) PnpmInstaller \<times> Extraneous \<times> Error option" where
  "linkDependencies X U nmPath [] extraneous s = (s, extraneous, None)"
| "linkDependencies X U nmPath (pair # dependencies) extraneous s =
     (case linkDependency X U nmPath pair extraneous s of
        (s1, extraneous1, Some e) \<Rightarrow> (s1, extraneous1, Some e)
      | (s1, extraneous1, None) \<Rightarrow> linkDependencies X U nmPath dependencies extraneous1 s1)"

fun removeExtraneous ::
  "'fs xfs \<Rightarrow> PortablePath \<Rightarrow> string list \<Rightarrow> ('fs, 'c) PnpmInstaller \<Rightarrow>
   ('fs, 'c) PnpmInstaller \<times> (Error + unit)" where
  "removeExtraneous X nmPath [] s = (s, Inr ())"
| "removeExtraneous X nmPath (n # names) s =
     (case removePromise X (ppath_join nmPath n) s of
        (s1, Inl e) \<Rightarrow> (s1, Inl e)
      | (s1, Inr _) \<Rightarrow> removeExtraneous X nmPath names s1)"

text \<open>Lines 116 to 147: the two loops that follow the listing.\<close>

definition reconcile ::
  "'fs xfs \<Rightarrow> StructUtils \<Rightarrow> PortablePath \<Rightarrow> (Descriptor \<times> Locator) list \<Rightarrow> Extraneous \<Rightarrow>
   ('fs, 'c) PnpmInstaller \<Rightarrow> ('fs, 'c) PnpmInstaller \<times> (Error + unit)" where
  "reconcile X U nmPath dependencies extraneous s =
     (case linkDependencies X U nmPath dependencies extraneous s of
        (s1, extraneous1, Some e) \<Rightarrow> (s1, Inl e)
      | (s1, extraneous1, None) \<Rightarrow> removeExtraneous X nmPath (map fst extraneous1) s1)"

text \<open>Lines 93 to 147: what is done once the path of the dependent is known.\<close>

definition reconcileDirectory ::
  "'fs xfs \<Rightarrow> StructUtils \<Rightarrow> PortablePath \<Rightarrow> (Descriptor \<times> Locator) list \<Rightarrow>
   ('fs, 'c) PnpmInstaller \<Rightarrow> ('fs, 'c) PnpmInstaller \<times> (Error + unit)" where
  "reconcileDirectory X U pkgPath dependencies s =
     (let nmPath = ppath_join pkgPath ''node_modules'' in
      case mkdirpPromise X nmPath s of
        (s2, Inl e) \<Rightarrow> (s2, Inl e)
      | (s2, Inr _) \<Rightarrow>
          (case listExtraneous X nmPath s2 of
             (s3, extraneous, Some e) \<Rightarrow> (s3, Inl e)
           | (s3, extraneous, None) \<Rightarrow> reconcile X U nmPath dependencies extraneous s3))"

definition attachInternalDependencies ::
  "'fs xfs \<Rightarrow> StructUtils \<Rightarrow> Locator \<Rightarrow> (Descriptor \<times> Locator) list \<Rightarrow>
   ('fs, 'c) PnpmInstaller \<Rightarrow> ('fs, 'c) PnpmInstaller \<times> (Error + unit)" where
  "attachInternalDependencies X U locator dependencies s =
     (case awaitPendingCopies X s of
        (s1, Inl e) \<Rightarrow> (s1, Inl e)
      | (s1, Inr _) \<Rightarrow>
          if \<not> isPnpmVirtualCompatible U s1 locator then (s1, Inr ())
          else
            (case locations s1 (locatorHash locator) of
               None \<Rightarrow> (s1, Inl (notRegistered locator))
             | Some pkgPath \<Rightarrow> reconcileDirectory X U pkgPath dependencies s1))"

subsection \<open>The other operations\<close>

definition attachExternalDependents ::
  "Locator \<Rightarrow> PortablePath list \<Rightarrow> ('fs, 'c) PnpmInstaller \<Rightarrow>
   ('fs, 'c) PnpmInstaller \<times> (Error + unit)" where
  "attachExternalDependents locator dependentPaths s =
     (s, Inl (Error ''External dependencies haven't been implemented for the pnpm linker''))"

datatype FinalizeResult = Undefined | Null

definition finalizeInstall ::
  "('fs, 'c) PnpmInstaller \<Rightarrow> ('fs, 'c) PnpmInstaller \<times> (Error + FinalizeResult)" where
  "finalizeInstall s =
     (if nodeLinker (opts s) \<noteq> ''pnpm'' then (s, Inr Undefined) else (s, Inr Null))"

section \<open>A model of the filesystem\<close>

text \<open>
  Modelled from the spec: the operations of \<open>xfs\<close> (the filesystem library is not part
  of the sources at hand), on a disk that is a tree of files, symbolic links and
  directories. A directory is the finite map of its association list, listed in the
  order of the list. The model does not resolve symbolic links: an operation whose path
  runs through a link, and a listing of a link, is answered with \<open>ELOOP\<close>.
\<close>

fun walk :: "node \<Rightarrow> PortablePath \<Rightarrow> string + node" where
  "walk n [] = Inr n"
| "walk (Directory es) (c # cs) =
     (case map_of es c of None \<Rightarrow> Inl ''ENOENT'' | Some m \<Rightarrow> walk m cs)"
| "walk (File _) (c # cs) = Inl ''ENOTDIR''"
| "walk (Symlink _) (c # cs) = Inl ''ELOOP''"

text \<open>
  \<open>updateAt p f\<close> rewrites the slot that the last segment of \<open>p\<close> names in its parent
  directory: \<open>f\<close> gets what the slot holds and answers what it shall hold.
\<close>

fun updateAt ::
  "PortablePath \<Rightarrow> (node option \<Rightarrow> string + node option) \<Rightarrow> node \<Rightarrow> string + node" where
  "updateAt [] f n = Inl ''EINVAL''"
| "updateAt [c] f (Directory es) =
     (case f (map_of es c) of
        Inl e \<Rightarrow> Inl e
      | Inr None \<Rightarrow> Inr (Directory (AList.delete c es))
      | Inr (Some m) \<Rightarrow> Inr (Directory (AList.update c m es)))"
| "updateAt (c # cs) f (Directory es) =
     (case map_of es c of
        None \<Rightarrow> Inl ''ENOENT''
      | Some m \<Rightarrow>
          (case updateAt cs f m of
             Inl e \<Rightarrow> Inl e
           | Inr m' \<Rightarrow> Inr (Directory (AList.update c m' es))))"
| "updateAt (c # cs) f (File _) = Inl ''ENOTDIR''"
| "updateAt (c # cs) f (Symlink _) = Inl ''ELOOP''"

text \<open>
  \<open>mkdirpPromise\<close> goes down the path and creates what is missing; a segment that
  exists is passed over, whatever it is.
\<close>

fun model_mkdirp :: "PortablePath \<Rightarrow> node \<Rightarrow> string + node" where
  "model_mkdirp [] n = Inr n"
| "model_mkdirp (c # cs) (Directory es) =
     (case model_mkdirp cs (case map_of es c of None \<Rightarrow> Directory [] | Some m \<Rightarrow> m) of
        Inl e \<Rightarrow> Inl e
      | Inr m' \<Rightarrow> Inr (Directory (AList.update c m' es)))"
| "model_mkdirp (c # cs) (File _) = Inl ''ENOTDIR''"
| "model_mkdirp (c # cs) (Symlink _) = Inl ''ELOOP''"

text \<open>
  \<open>mkdirPromise\<close>: with \<open>recursive\<close> the parents are created and an existing directory
  is accepted; without it the parent must exist and the path must not.
\<close>

fun model_mkdirRecursive :: "PortablePath \<Rightarrow> node \<Rightarrow> string + node" where
  "model_mkdirRecursive [] (Directory es) = Inr (Directory es)"
| "model_mkdirRecursive [] _ = Inl ''EEXIST''"
| "model_mkdirRecursive (c # cs) (Directory es) =
     (case model_mkdirRecursive cs (case map_of es c of None \<Rightarrow> Directory [] | Some m \<Rightarrow> m) of
        Inl e \<Rightarrow> Inl e
      | Inr m' \<Rightarrow> Inr (Directory (AList.update c m' es)))"
| "model_mkdirRecursive (c # cs) (File _) = Inl ''ENOTDIR''"
| "model_mkdirRecursive (c # cs) (Symlink _) = Inl ''ELOOP''"

definition model_mkdir :: "PortablePath \<Rightarrow> bool \<Rightarrow> node \<Rightarrow> string + node" where
  "model_mkdir p recursive d =
     (if recursive then model_mkdirRecursive p d
      else updateAt p
             (\<lambda>slot. case slot of None \<Rightarrow> Inr (Some (Directory [])) | Some _ \<Rightarrow> Inl ''EEXIST'') d)"

definition direntOf :: "Filename \<Rightarrow> node \<Rightarrow> Dirent" where
  "direntOf n m =
     (case m of
        File _ \<Rightarrow> Dirent n False False
      | Symlink _ \<Rightarrow> Dirent n True False
      | Directory _ \<Rightarrow> Dirent n False True)"

definition listing :: "(Filename \<times> node) list \<Rightarrow> Dirent list" where
  "listing es =
     concat (map (\<lambda>n. case map_of es n of None \<Rightarrow> [] | Some m \<Rightarrow> [direntOf n m])
                 (remdups (map fst es)))"

definition model_readdir :: "PortablePath \<Rightarrow> node \<Rightarrow> string + Dirent list" where
  "model_readdir p d =
     (case walk d p of
        Inl e \<Rightarrow> Inl e
      | Inr (Directory es) \<Rightarrow> Inr (listing es)
      | Inr (File _) \<Rightarrow> Inl ''ENOTDIR''
      | Inr (Symlink _) \<Rightarrow> Inl ''ELOOP'')"

definition model_readlink :: "PortablePath \<Rightarrow> node \<Rightarrow> string + string" where
  "model_readlink p d =
     (case walk d p of
        Inl e \<Rightarrow> Inl e
      | Inr (Symlink target) \<Rightarrow> Inr target
      | Inr _ \<Rightarrow> Inl ''EINVAL'')"

text \<open>
  \<open>removePromise\<close> removes a file, a link or a whole directory, and does nothing when
  the path does not exist.
\<close>

definition model_remove :: "PortablePath \<Rightarrow> node \<Rightarrow> string + node" where
  "model_remove p d =
     (case updateAt p (\<lambda>slot. Inr None) d of
        Inl e \<Rightarrow> if e = ''ENOENT'' then Inr d else Inl e
      | Inr d' \<Rightarrow> Inr d')"

definition model_symlink :: "string \<Rightarrow> PortablePath \<Rightarrow> node \<Rightarrow> string + node" where
  "model_symlink target p d =
     updateAt p
       (\<lambda>slot. case slot of None \<Rightarrow> Inr (Some (Symlink target)) | Some _ \<Rightarrow> Inl ''EEXIST'') d"

text \<open>
  \<open>copyPromise\<close> copies a tree onto what the destination holds. With \<open>overwrite\<close>
  refused, an entry that exists is kept as it is and only missing ones are created.
\<close>

fun copyNode :: "bool \<Rightarrow> node \<Rightarrow> node option \<Rightarrow> node"
  and copyChildren :: "bool \<Rightarrow> (Filename \<times> node) list \<Rightarrow> (Filename \<times> node) list \<Rightarrow>
    (Filename \<times> node) list" where
  "copyNode overwrite (File c) slot =
     (case slot of None \<Rightarrow> File c | Some d \<Rightarrow> if overwrite then File c else d)"
| "copyNode overwrite (Symlink t) slot =
     (case slot of None \<Rightarrow> Symlink t | Some d \<Rightarrow> if overwrite then Symlink t else d)"
| "copyNode overwrite (Directory ses) slot =
     (case slot of
        None \<Rightarrow> Directory (copyChildren overwrite ses [])
      | Some (Directory des) \<Rightarrow> Directory (copyChildren overwrite ses des)
      | Some d \<Rightarrow> if overwrite then Directory (copyChildren overwrite ses []) else d)"
| "copyChildren overwrite [] des = des"
| "copyChildren overwrite (e # ses) des =
     copyChildren overwrite ses
       (AList.update (fst e) (copyNode overwrite (snd e) (map_of des (fst e))) des)"

definition model_copy ::
  "PortablePath \<Rightarrow> string \<Rightarrow> FakeFS \<Rightarrow> bool \<Rightarrow> node \<Rightarrow> string + node" where
  "model_copy dst src baseFs overwrite d =
     (case walk (root baseFs) (ppath_join [] src) of
        Inl e \<Rightarrow> Inl e
      | Inr m \<Rightarrow>
          (case dst of
             [] \<Rightarrow> Inr (copyNode overwrite m (Some d))
           | _ \<Rightarrow> updateAt dst (\<lambda>slot. Inr (Some (copyNode overwrite m slot))) d))"

definition model_xfs :: "node xfs" where
  "model_xfs =
     \<lparr>xfs_mkdirPromise = model_mkdir,
      xfs_copyPromise = model_copy,
      xfs_mkdirpPromise = model_mkdirp,
      xfs_readdirPromise = model_readdir,
      xfs_readlinkPromise = model_readlink,
      xfs_removePromise = model_remove,
      xfs_symlinkPromise = model_symlink\<rparr>"

section \<open>Observations on a run\<close>

definition extends :: "('fs, 'c) PnpmInstaller \<Rightarrow> ('fs, 'c) PnpmInstaller \<Rightarrow> bool" where
  "extends s s' =
     (opts s' = opts s \<and> locations s' = locations s \<and> pendingCopies s' = pendingCopies s
      \<and> customData s' = customData s \<and> (\<exists>cs. calls s' = calls s @ cs))"

definition newCalls :: "('fs, 'c) PnpmInstaller \<Rightarrow> ('fs, 'c) PnpmInstaller \<Rightarrow> xfs_call list" where
  "newCalls s s' = drop (length (calls s)) (calls s')"

text \<open>what a call does to the disk\<close>

definition populationCall :: "xfs_call \<Rightarrow> bool" where
  "populationCall c = (case c of MkdirCall _ \<Rightarrow> True | CopyCall _ _ _ \<Rightarrow> True | _ \<Rightarrow> False)"

definition writeCall :: "xfs_call \<Rightarrow> bool" where
  "writeCall c = (case c of ReaddirCall _ \<Rightarrow> False | ReadlinkCall _ \<Rightarrow> False | _ \<Rightarrow> True)"

definition listingCall :: "xfs_call \<Rightarrow> bool" where
  "listingCall c = (case c of ReaddirCall _ \<Rightarrow> True | _ \<Rightarrow> False)"

definition linkCalls :: "PortablePath \<Rightarrow> string \<Rightarrow> PortablePath \<Rightarrow> bool \<Rightarrow> xfs_call list \<Rightarrow> bool" where
  "linkCalls nm n src known cs =
     (let q = ppath_join nm n; t = ppath_relative (ppath_dirname q) src in
      (\<forall>c\<in>set cs. c = ReadlinkCall q \<or> c = RemoveCall q \<or> c = MkdirpCall (ppath_dirname q)
          \<or> c = SymlinkCall t q)
      \<and> (\<not> known \<longrightarrow> RemoveCall q \<notin> set cs))"

definition depCall ::
  "StructUtils \<Rightarrow> ('fs, 'c) PnpmInstaller \<Rightarrow> PortablePath \<Rightarrow> (Descriptor \<times> Locator) list \<Rightarrow>
   Extraneous \<Rightarrow> xfs_call \<Rightarrow> bool" where
  "depCall U s nm deps ext c =
     (\<exists>d dep src. (d, dep) \<in> set deps \<and> depSrcPathOf U s dep = Some src
        \<and> linkCalls nm (stringifyIdent d) src (stringifyIdent d \<in> fst ` set ext) [c])"



section \<open>A small project\<close>

text \<open>
  The project the closed theorems run on: a workspace \<open>app\<close>, a workspace \<open>lib\<close> and
  its virtual instance, three packages of the store, one of them virtual, and a dependency
  directory that a previous install left with two stale entries.
\<close>

definition makeLocator :: "string option \<Rightarrow> string \<Rightarrow> string \<Rightarrow> Locator" where
  "makeLocator sc n ref =
     \<lparr>scope = sc, name = n, reference = ref,
      locatorHash = stringifyIdent \<lparr>scope = sc, name = n\<rparr> @ ''@'' @ ref\<rparr>"

definition makeDescriptor :: "string option \<Rightarrow> string \<Rightarrow> string \<Rightarrow> Descriptor" where
  "makeDescriptor sc n r = \<lparr>scope = sc, name = n, descriptorRange = r\<rparr>"

definition demoUtils :: StructUtils where
  "demoUtils =
     \<lparr>isVirtualLocator = (\<lambda>l. startsWith (reference l) ''virtual:''),
      devirtualizeLocator =
        (\<lambda>l. makeLocator (scope l) (name l) (drop 1 (dropWhile (\<lambda>c. c \<noteq> CHR ''#'') (reference l)))),
      slugifyLocator =
        (\<lambda>l. name l @ ''-'' @ filter (\<lambda>c. c \<noteq> CHR '':'' \<and> c \<noteq> CHR ''/'' \<and> c \<noteq> CHR ''#'') (reference l))\<rparr>"

definition demoOpts :: LinkOptions where
  "demoOpts =
     \<lparr>cwd = [''proj''], nodeLinker = ''pnpm'',
      tryWorkspaceByLocator =
        (\<lambda>l. if scope l = None \<and> name l = ''app'' then Some [''proj'']
              else if scope l = None \<and> name l = ''lib'' then Some [''proj'', ''lib'']
              else None)\<rparr>"

definition app :: Locator where "app = makeLocator None ''app'' ''workspace:.''"

definition lib :: Locator where "lib = makeLocator None ''lib'' ''workspace:lib''"

definition virtualLib :: Locator where "virtualLib = makeLocator None ''lib'' ''virtual:7c#workspace:lib''"

definition leftPad :: Locator where "leftPad = makeLocator None ''left-pad'' ''npm:1.3.0''"

definition reactDom :: Locator where "reactDom = makeLocator None ''react-dom'' ''npm:18.2.0''"

definition virtualReactDom :: Locator where
  "virtualReactDom = makeLocator None ''react-dom'' ''virtual:7c#npm:18.2.0''"

definition typesNode :: Locator where "typesNode = makeLocator (Some ''types'') ''node'' ''npm:20.1.0''"

definition store :: "Filename \<Rightarrow> PortablePath" where
  "store slot = [''proj'', ''node_modules'', ''.store'', slot]"

definition demoLocations :: "LocatorHash \<rightharpoonup> PortablePath" where
  "demoLocations =
     map_of
       [(locatorHash app, [''proj'']),
        (locatorHash lib, [''proj'', ''lib'']),
        (locatorHash leftPad, store ''left-pad-npm1.3.0''),
        (locatorHash reactDom, store ''react-dom-npm18.2.0''),
        (locatorHash virtualReactDom, store ''react-dom-virtual7cnpm18.2.0''),
        (locatorHash typesNode, store ''node-npm20.1.0'')]"

definition demoDisk :: node where
  "demoDisk =
     Directory
       [(''proj'', Directory
          [(''lib'', Directory [(''index.js'', File ''lib'')]),
           (''node_modules'', Directory
              [(''.store'', Directory
                  [(''left-pad-npm1.3.0'', Directory [(''index.js'', File ''pad'')]),
                   (''react-dom-npm18.2.0'', Directory []),
                   (''react-dom-virtual7cnpm18.2.0'', Directory []),
                   (''node-npm20.1.0'', Directory [])]),
               (''stale'', Symlink ''.store/stale-npm1.0.0''),
               (''@types'', Directory [(''old'', Symlink ''../.store/old-npm1.0.0'')])])])]"

definition demoInstaller :: "(node, string) PnpmInstaller" where
  "demoInstaller =
     \<lparr>opts = demoOpts, locations = demoLocations, pendingCopies = [], customData = None,
      disk = demoDisk, calls = []\<rparr>"

definition demoDependencies :: "(Descriptor \<times> Locator) list" where
  "demoDependencies =
     [(makeDescriptor None ''left-pad'' ''npm:^1.0.0'', leftPad),
      (makeDescriptor None ''lib'' ''workspace:*'', virtualLib),
      (makeDescriptor None ''react-dom'' ''npm:^18.0.0'', virtualReactDom),
      (makeDescriptor (Some ''types'') ''node'' ''npm:^20.0.0'', typesNode)]"

definition unregistered :: Locator where
  "unregistered = makeLocator None ''ghost'' ''npm:0.0.1''"







section \<open>What the disk shows\<close>

text \<open>
  The shape of what stands at a path; well-formed names and identities; the names under
  which a dependency directory can hold a package (a plain name, or a scope and a child).
\<close>

datatype shape = IsFile | IsLink string | IsDirectory

definition shapeOf :: "node \<Rightarrow> shape" where
  "shapeOf n = (case n of File _ \<Rightarrow> IsFile | Symlink t \<Rightarrow> IsLink t | Directory _ \<Rightarrow> IsDirectory)"

definition slotAt :: "node \<Rightarrow> PortablePath \<Rightarrow> node option" where
  "slotAt d p = (case walk d p of Inl _ \<Rightarrow> None | Inr n \<Rightarrow> Some n)"

definition shapeAt :: "node \<Rightarrow> PortablePath \<Rightarrow> shape option" where
  "shapeAt d p = map_option shapeOf (slotAt d p)"

definition validName :: "Filename \<Rightarrow> bool" where
  "validName n = (n \<noteq> [] \<and> n \<noteq> ''.'' \<and> n \<noteq> ''..'' \<and> CHR ''/'' \<notin> set n)"




definition keyPath :: "PortablePath \<Rightarrow> string \<Rightarrow> PortablePath \<Rightarrow> bool" where
  "keyPath nm k q =
     ((validName k \<and> \<not> startsWith k ''.'' \<and> \<not> startsWith k ''@'' \<and> q = nm @ [k])
      \<or> (\<exists>n c. k = n @ ''/'' @ c \<and> validName n \<and> startsWith n ''@'' \<and> validName c
            \<and> q = nm @ [n, c]))"

definition truthful :: "node \<Rightarrow> PortablePath \<Rightarrow> Extraneous \<Rightarrow> bool" where
  "truthful d nm ext =
     (\<forall>k ent. map_of ext k = Some ent \<longrightarrow>
        (\<exists>q. keyPath nm k q \<and> shapeAt d q \<noteq> None
           \<and> (isSymbolicLink ent \<longleftrightarrow> (\<exists>t. shapeAt d q = Some (IsLink t)))))"





definition names :: "(Descriptor \<times> Locator) list \<Rightarrow> string set" where
  "names deps = (\<lambda>pair. stringifyIdent (fst pair)) ` set deps"












section \<open>Lemmas\<close>

subsection \<open>The custom data is carried along\<close>

lemma editDisk_customData:
  "editDisk c f (s\<lparr>customData := v\<rparr>) =
     (case editDisk c f s of (s', r) \<Rightarrow> (s'\<lparr>customData := v\<rparr>, r))"
  by (simp add: editDisk_def split: sum.splits)

lemma readDisk_customData:
  "readDisk c f (s\<lparr>customData := v\<rparr>) =
     (case readDisk c f s of (s', r) \<Rightarrow> (s'\<lparr>customData := v\<rparr>, r))"
  by (simp add: readDisk_def split: sum.splits)

lemmas call_defs = mkdirPromise_def copyPromise_def mkdirpPromise_def readdirPromise_def
  readlinkPromise_def removePromise_def symlinkPromise_def

lemma copyTask_customData:
  "copyTask X p fr (s\<lparr>customData := v\<rparr>) =
     (case copyTask X p fr s of (s', r) \<Rightarrow> (s'\<lparr>customData := v\<rparr>, r))"
  by (simp add: copyTask_def call_defs editDisk_customData split: prod.splits sum.splits)

lemma settle_customData:
  "settle X ps (s\<lparr>customData := v\<rparr>) =
     (case settle X ps s of (ps', s') \<Rightarrow> (ps', s'\<lparr>customData := v\<rparr>))"
  by (induction ps arbitrary: s)
     (auto simp: copyTask_customData split: prod.splits PromiseState.splits)

lemma awaitPendingCopies_customData:
  "awaitPendingCopies X (s\<lparr>customData := v\<rparr>) =
     (case awaitPendingCopies X s of (s', r) \<Rightarrow> (s'\<lparr>customData := v\<rparr>, r))"
  by (simp add: awaitPendingCopies_def settle_customData split: prod.splits)

lemma recordEntries_customData:
  "recordEntries X nm es ext (s\<lparr>customData := v\<rparr>) =
     (case recordEntries X nm es ext s of (s', r) \<Rightarrow> (s'\<lparr>customData := v\<rparr>, r))"
  by (induction es arbitrary: s ext)
     (auto simp: call_defs readDisk_customData split: prod.splits sum.splits)

lemma listExtraneous_customData:
  "listExtraneous X nm (s\<lparr>customData := v\<rparr>) =
     (case listExtraneous X nm s of (s', r) \<Rightarrow> (s'\<lparr>customData := v\<rparr>, r))"
  by (simp add: listExtraneous_def tryListing_def call_defs readDisk_customData recordEntries_customData
      split: prod.splits sum.splits option.splits)

lemma createLink_customData:
  "createLink X t p (s\<lparr>customData := v\<rparr>) =
     (case createLink X t p s of (s', r) \<Rightarrow> (s'\<lparr>customData := v\<rparr>, r))"
  by (simp add: createLink_def call_defs editDisk_customData split: prod.splits sum.splits)

lemma replaceLink_customData:
  "replaceLink X t p (s\<lparr>customData := v\<rparr>) =
     (case replaceLink X t p s of (s', r) \<Rightarrow> (s'\<lparr>customData := v\<rparr>, r))"
  by (simp add: replaceLink_def call_defs editDisk_customData createLink_customData split: prod.splits sum.splits)

lemma depSrcPathOf_customData [simp]:
  "depSrcPathOf U (s\<lparr>customData := v\<rparr>) l = depSrcPathOf U s l"
  by (simp add: depSrcPathOf_def targetDependency_def isPnpmVirtualCompatible_def)

lemma linkDependency_customData:
  "linkDependency X U nm pair ext (s\<lparr>customData := v\<rparr>) =
     (case linkDependency X U nm pair ext s of (s', r) \<Rightarrow> (s'\<lparr>customData := v\<rparr>, r))"
  by (simp add: linkDependency_def Let_def call_defs readDisk_customData replaceLink_customData
        createLink_customData split: prod.splits sum.splits option.splits)

lemma linkDependencies_customData:
  "linkDependencies X U nm deps ext (s\<lparr>customData := v\<rparr>) =
     (case linkDependencies X U nm deps ext s of (s', r) \<Rightarrow> (s'\<lparr>customData := v\<rparr>, r))"
  by (induction deps arbitrary: s ext)
     (auto simp: linkDependency_customData split: prod.splits option.splits)

lemma removeExtraneous_customData:
  "removeExtraneous X nm ns (s\<lparr>customData := v\<rparr>) =
     (case removeExtraneous X nm ns s of (s', r) \<Rightarrow> (s'\<lparr>customData := v\<rparr>, r))"
  by (induction ns arbitrary: s)
     (auto simp: call_defs editDisk_customData split: prod.splits sum.splits)

lemma reconcile_customData:
  "reconcile X U nm deps ext (s\<lparr>customData := v\<rparr>) =
     (case reconcile X U nm deps ext s of (s', r) \<Rightarrow> (s'\<lparr>customData := v\<rparr>, r))"
  by (simp add: reconcile_def linkDependencies_customData removeExtraneous_customData
      split: prod.splits option.splits)

lemma reconcileDirectory_customData:
  "reconcileDirectory X U p deps (s\<lparr>customData := v\<rparr>) =
     (case reconcileDirectory X U p deps s of (s', r) \<Rightarrow> (s'\<lparr>customData := v\<rparr>, r))"
  by (simp add: reconcileDirectory_def Let_def call_defs editDisk_customData listExtraneous_customData
      reconcile_customData split: prod.splits sum.splits option.splits)

lemma isPnpmVirtualCompatible_customData [simp]:
  "isPnpmVirtualCompatible U (s\<lparr>customData := v\<rparr>) l = isPnpmVirtualCompatible U s l"
  by (simp add: isPnpmVirtualCompatible_def)

lemma attachInternalDependencies_customData:
  "attachInternalDependencies X U l deps (s\<lparr>customData := v\<rparr>) =
     (case attachInternalDependencies X U l deps s of (s', r) \<Rightarrow> (s'\<lparr>customData := v\<rparr>, r))"
proof (cases "awaitPendingCopies X s")
  case (Pair s1 r)
  then show ?thesis
    by (cases r)
       (auto simp: attachInternalDependencies_def awaitPendingCopies_customData
          reconcileDirectory_customData split: option.splits prod.splits)
qed

lemma installPackage_customData:
  "installPackage U pkg fr (s\<lparr>customData := v\<rparr>) =
     (case installPackage U pkg fr s of (s', r) \<Rightarrow> (s'\<lparr>customData := v\<rparr>, r))"
  by (simp add: installPackage_def installPackageSoft_def installPackageHard_def Let_def
      split: LinkType.splits)

text \<open>
  C10. Whatever two values are attached with \<open>attachCustomData\<close>, \<open>installPackage\<close>,
  \<open>attachInternalDependencies\<close>, \<open>attachExternalDependents\<close> and \<open>finalizeInstall\<close> return
  the same result and leave the same state (the same disk, calls, locations and pending
  copies), but for the value stored.
\<close>

theorem custom_data_unobservable:
  "snd (installPackage U pkg fr (attachCustomData v1 s)) =
     snd (installPackage U pkg fr (attachCustomData v2 s))
   \<and> fst (installPackage U pkg fr (attachCustomData v2 s)) =
     (fst (installPackage U pkg fr (attachCustomData v1 s)))\<lparr>customData := v2\<rparr>
   \<and> snd (attachInternalDependencies X U l deps (attachCustomData v1 s)) =
     snd (attachInternalDependencies X U l deps (attachCustomData v2 s))
   \<and> fst (attachInternalDependencies X U l deps (attachCustomData v2 s)) =
     (fst (attachInternalDependencies X U l deps (attachCustomData v1 s)))\<lparr>customData := v2\<rparr>
   \<and> snd (attachExternalDependents l ps (attachCustomData v1 s)) =
     snd (attachExternalDependents l ps (attachCustomData v2 s))
   \<and> fst (attachExternalDependents l ps (attachCustomData v2 s)) =
     (fst (attachExternalDependents l ps (attachCustomData v1 s)))\<lparr>customData := v2\<rparr>
   \<and> snd (finalizeInstall (attachCustomData v1 s)) = snd (finalizeInstall (attachCustomData v2 s))
   \<and> fst (finalizeInstall (attachCustomData v2 s)) =
     (fst (finalizeInstall (attachCustomData v1 s)))\<lparr>customData := v2\<rparr>"
  by (simp add: attachCustomData_def installPackage_customData attachInternalDependencies_customData
      attachExternalDependents_def finalizeInstall_def split: prod.splits)

subsection \<open>What a call leaves as it was\<close>

lemma extends_refl [simp]: "extends s s"
  by (simp add: extends_def)

lemma extends_trans: "extends s s1 \<Longrightarrow> extends s1 s2 \<Longrightarrow> extends s s2"
  by (auto simp: extends_def)

lemma extends_calls: "extends s s' \<Longrightarrow> calls s' = calls s @ newCalls s s'"
  by (auto simp: extends_def newCalls_def)

lemma newCalls_refl [simp]: "newCalls s s = []"
  by (simp add: newCalls_def)

lemma newCalls_trans:
  "extends s s1 \<Longrightarrow> extends s1 s2 \<Longrightarrow> newCalls s s2 = newCalls s s1 @ newCalls s1 s2"
  by (auto simp: extends_def newCalls_def)

lemma editDisk_extends:
  "editDisk c f s = (s', r) \<Longrightarrow> extends s s' \<and> newCalls s s' = [c]"
  by (auto simp: editDisk_def extends_def newCalls_def split: sum.splits)

lemma readDisk_extends:
  "readDisk c f s = (s', r) \<Longrightarrow> extends s s' \<and> newCalls s s' = [c] \<and> disk s' = disk s"
  by (auto simp: readDisk_def extends_def newCalls_def split: sum.splits)

lemma extends_depSrcPathOf: "extends s s' \<Longrightarrow> depSrcPathOf U s' l = depSrcPathOf U s l"
  by (simp add: extends_def depSrcPathOf_def targetDependency_def isPnpmVirtualCompatible_def)

lemma extends_compatible:
  "extends s s' \<Longrightarrow> isPnpmVirtualCompatible U s' l = isPnpmVirtualCompatible U s l"
  by (simp add: extends_def isPnpmVirtualCompatible_def)

lemma copyTask_extends:
  "copyTask X p fr s = (s', r) \<Longrightarrow> extends s s' \<and> (\<forall>c\<in>set (newCalls s s'). populationCall c)"
  by (auto simp: copyTask_def mkdirPromise_def copyPromise_def editDisk_def extends_def
        newCalls_def populationCall_def split: prod.splits sum.splits)

lemmas call_defs2 = mkdirPromise_def copyPromise_def mkdirpPromise_def readdirPromise_def
  readlinkPromise_def removePromise_def symlinkPromise_def

lemma settle_extends:
  "settle X ps s = (ps', s') \<Longrightarrow>
     extends s s' \<and> (\<forall>c\<in>set (newCalls s s'). populationCall c)
     \<and> length ps' = length ps \<and> (\<forall>p\<in>set ps'. promiseState p \<noteq> Pending)"
proof (induction ps arbitrary: s ps' s')
  case Nil
  then show ?case by simp
next
  case (Cons p ps)
  show ?case
  proof (cases "promiseState p = Pending")
    case True
    obtain s1 r where t: "copyTask X (copyPkgPath p) (copyFetchResult p) s = (s1, r)"
      by (cases "copyTask X (copyPkgPath p) (copyFetchResult p) s")
    obtain qs s2 where st: "settle X ps s1 = (qs, s2)"
      by (cases "settle X ps s1")
    from Cons.prems True t st have eq:
      "ps' = p\<lparr>promiseState := (case r of Inl e \<Rightarrow> Rejected e | Inr _ \<Rightarrow> Fulfilled)\<rparr> # qs"
      "s' = s2"
      by simp_all
    from copyTask_extends [OF t] have e1: "extends s s1"
      and c1: "\<forall>c\<in>set (newCalls s s1). populationCall c" by simp_all
    from Cons.IH [OF st] have e2: "extends s1 s2"
      and c2: "\<forall>c\<in>set (newCalls s1 s2). populationCall c"
      and l2: "length qs = length ps" and p2: "\<forall>p\<in>set qs. promiseState p \<noteq> Pending"
      by simp_all
    have "newCalls s s2 = newCalls s s1 @ newCalls s1 s2"
      using e1 e2 by (rule newCalls_trans)
    moreover have "extends s s2" using e1 e2 by (rule extends_trans)
    ultimately show ?thesis using c1 c2 l2 p2 eq
      by (auto split: sum.splits)
  next
    case False
    obtain qs s2 where st: "settle X ps s = (qs, s2)"
      by (cases "settle X ps s")
    from Cons.prems False st have eq: "ps' = p # qs" "s' = s2"
      by (auto split: PromiseState.splits)
    from Cons.IH [OF st] False eq show ?thesis by auto
  qed
qed

lemma firstRejection_None:
  "firstRejection ps = None \<Longrightarrow> \<forall>p\<in>set ps. promiseState p \<noteq> Pending \<Longrightarrow>
   \<forall>p\<in>set ps. promiseState p = Fulfilled"
  by (induction ps) (auto split: PromiseState.splits)

lemma awaitPendingCopies_frame:
  assumes "awaitPendingCopies X s = (s1, r)"
  shows "opts s1 = opts s" and "locations s1 = locations s" and "customData s1 = customData s"
    and "\<exists>cs. calls s1 = calls s @ cs \<and> (\<forall>c\<in>set cs. populationCall c)"
    and "\<forall>p\<in>set (pendingCopies s1). promiseState p \<noteq> Pending"
    and "r = Inr () \<Longrightarrow> \<forall>p\<in>set (pendingCopies s1). promiseState p = Fulfilled"
    and "\<exists>e. r = Inl e \<or> r = Inr ()"
proof -
  obtain ps s2 where st: "settle X (pendingCopies s) s = (ps, s2)"
    by (cases "settle X (pendingCopies s) s")
  from assms st have eq: "s1 = s2\<lparr>pendingCopies := ps\<rparr>"
    and r: "r = (case firstRejection ps of Some e \<Rightarrow> Inl e | None \<Rightarrow> Inr ())"
    by (simp_all add: awaitPendingCopies_def)
  note f = settle_extends [OF st]
  from f eq show "opts s1 = opts s" "locations s1 = locations s" "customData s1 = customData s"
    by (simp_all add: extends_def)
  from f have "calls s2 = calls s @ newCalls s s2" by (simp add: extends_calls)
  with f eq show "\<exists>cs. calls s1 = calls s @ cs \<and> (\<forall>c\<in>set cs. populationCall c)"
    by auto
  from f eq show np: "\<forall>p\<in>set (pendingCopies s1). promiseState p \<noteq> Pending" by simp
  show "r = Inr () \<Longrightarrow> \<forall>p\<in>set (pendingCopies s1). promiseState p = Fulfilled"
  proof -
    assume "r = Inr ()"
    with r have "firstRejection ps = None" by (simp split: option.splits)
    with f eq show ?thesis using firstRejection_None [of ps] by simp
  qed
  from r show "\<exists>e. r = Inl e \<or> r = Inr ()" by (auto split: option.splits)
qed

lemma recordEntries_extends:
  "recordEntries X nm es ext s = (s', ext', r) \<Longrightarrow>
     extends s s' \<and> disk s' = disk s \<and> (\<forall>c\<in>set (newCalls s s'). listingCall c)
     \<and> (\<forall>e. r = Some e \<longrightarrow> (\<exists>c. e = ErrnoError c))"
proof (induction es arbitrary: s ext)
  case Nil
  then show ?case by simp
next
  case (Cons entry es)
  show ?case
  proof (cases "startsWith (entryName entry) ''.''")
    case True
    with Cons.prems have "recordEntries X nm es ext s = (s', ext', r)" by simp
    from Cons.IH [OF this] show ?thesis .
  next
    case dot: False
    show ?thesis
    proof (cases "startsWith (entryName entry) ''@''")
      case False
      with dot Cons.prems have
        "recordEntries X nm es (AList.update (entryName entry) entry ext) s = (s', ext', r)"
        by simp
      from Cons.IH [OF this] show ?thesis .
    next
      case True
      obtain s1 r1 where rd: "readdirPromise X (ppath_join nm (entryName entry)) s = (s1, r1)"
        by (cases "readdirPromise X (ppath_join nm (entryName entry)) s")
      then have f1: "extends s s1" "disk s1 = disk s"
        "newCalls s s1 = [ReaddirCall (ppath_join nm (entryName entry))]"
        by (auto simp: readdirPromise_def dest: readDisk_extends)
      show ?thesis
      proof (cases r1)
        case (Inl e)
        with Cons.prems dot True rd have "s' = s1" "r = Some e" by simp_all
        moreover from rd Inl have "\<exists>c. e = ErrnoError c"
          by (auto simp: readdirPromise_def readDisk_def split: sum.splits)
        ultimately show ?thesis using f1 by (simp add: listingCall_def)
      next
        case (Inr subs)
        with Cons.prems dot True rd have
          "recordEntries X nm es (recordSubEntries (entryName entry) subs ext) s1 = (s', ext', r)"
          by simp
        from Cons.IH [OF this] have ih: "extends s1 s'" "disk s' = disk s1"
          "\<forall>c\<in>set (newCalls s1 s'). listingCall c"
          "\<forall>e. r = Some e \<longrightarrow> (\<exists>c. e = ErrnoError c)" by simp_all
        have "extends s s'" using f1(1) ih(1) by (rule extends_trans)
        moreover have "newCalls s s' = newCalls s s1 @ newCalls s1 s'"
          using f1(1) ih(1) by (rule newCalls_trans)
        ultimately show ?thesis using f1 ih by (simp add: listingCall_def)
      qed
    qed
  qed
qed

lemma tryListing_extends:
  assumes "tryListing X nm s = (s', ext', r)"
  shows "extends s s' \<and> disk s' = disk s \<and> (\<forall>c\<in>set (newCalls s s'). listingCall c)
     \<and> (\<forall>e. r = Some e \<longrightarrow> (\<exists>c. e = ErrnoError c))"
proof -
  obtain s1 r1 where rd: "readdirPromise X nm s = (s1, r1)"
    by (cases "readdirPromise X nm s")
  then have f1: "extends s s1" "disk s1 = disk s" "newCalls s s1 = [ReaddirCall nm]"
    by (auto simp: readdirPromise_def dest: readDisk_extends)
  show ?thesis
  proof (cases r1)
    case (Inl e)
    with assms rd have "s' = s1" "r = Some e" by (simp_all add: tryListing_def)
    moreover from rd Inl have "\<exists>c. e = ErrnoError c"
      by (auto simp: readdirPromise_def readDisk_def split: sum.splits)
    ultimately show ?thesis using f1 by (simp add: listingCall_def)
  next
    case (Inr entries)
    with assms rd have "recordEntries X nm entries [] s1 = (s', ext', r)"
      by (simp add: tryListing_def)
    from recordEntries_extends [OF this] have ih: "extends s1 s'" "disk s' = disk s1"
      "\<forall>c\<in>set (newCalls s1 s'). listingCall c"
      "\<forall>e. r = Some e \<longrightarrow> (\<exists>c. e = ErrnoError c)" by simp_all
    have "extends s s'" using f1(1) ih(1) by (rule extends_trans)
    moreover have "newCalls s s' = newCalls s s1 @ newCalls s1 s'"
      using f1(1) ih(1) by (rule newCalls_trans)
    ultimately show ?thesis using f1 ih by (simp add: listingCall_def)
  qed
qed

lemma listExtraneous_extends:
  assumes "listExtraneous X nm s = (s', ext', r)"
  shows "extends s s' \<and> disk s' = disk s \<and> (\<forall>c\<in>set (newCalls s s'). listingCall c)
     \<and> (\<forall>e. r = Some e \<longrightarrow> (\<exists>c. e = ErrnoError c))"
proof -
  obtain s1 ext1 r1 where t: "tryListing X nm s = (s1, ext1, r1)"
    by (cases "tryListing X nm s") auto
  with assms have "s' = s1" "r = None \<or> r = r1"
    by (auto simp: listExtraneous_def split: option.splits if_splits)
  with tryListing_extends [OF t] show ?thesis by auto
qed

lemma createLink_frame:
  assumes "createLink X t q s = (s', r)"
  shows "extends s s' \<and> (\<forall>e. r = Some e \<longrightarrow> (\<exists>c. e = ErrnoError c))
     \<and> (newCalls s s' = [MkdirpCall (ppath_dirname q)]
        \<or> newCalls s s' = [MkdirpCall (ppath_dirname q), SymlinkCall t q])"
  using assms
  by (auto simp: createLink_def mkdirpPromise_def symlinkPromise_def editDisk_def extends_def
        newCalls_def split: prod.splits sum.splits)

lemma replaceLink_frame:
  assumes "replaceLink X t q s = (s', r)"
  shows "extends s s' \<and> (\<forall>e. r = Some e \<longrightarrow> (\<exists>c. e = ErrnoError c))
     \<and> (newCalls s s' = [RemoveCall q]
        \<or> newCalls s s' = [RemoveCall q, MkdirpCall (ppath_dirname q)]
        \<or> newCalls s s' = [RemoveCall q, MkdirpCall (ppath_dirname q), SymlinkCall t q])"
  using assms
  by (auto simp: replaceLink_def createLink_def removePromise_def mkdirpPromise_def
        symlinkPromise_def editDisk_def extends_def
        newCalls_def split: prod.splits sum.splits)

lemma linkDependency_unregistered:
  "depSrcPathOf U s dep = None \<Longrightarrow>
   linkDependency X U nm (d, dep) ext s = (s, ext, Some (notRegistered dep))"
  by (simp add: linkDependency_def)

lemma linkDependency_frame:
  assumes "linkDependency X U nm (d, dep) ext s = (s', ext', r)"
    and "depSrcPathOf U s dep = Some src"
  shows "extends s s' \<and> ext' = AList.delete (stringifyIdent d) ext
     \<and> (\<forall>e. r = Some e \<longrightarrow> (\<exists>c. e = ErrnoError c))
     \<and> linkCalls nm (stringifyIdent d) src (stringifyIdent d \<in> fst ` set ext) (newCalls s s')"
proof -
  let ?n = "stringifyIdent d"
  let ?q = "ppath_join nm ?n"
  let ?t = "ppath_relative (ppath_dirname ?q) src"
  show ?thesis
  proof (cases "map_of ext ?n")
    case None
    with assms have c: "createLink X ?t ?q s = (s', r)" and e: "ext' = AList.delete ?n ext"
      by (auto simp: linkDependency_def Let_def split: prod.splits)
    from createLink_frame [OF c] e show ?thesis
      by (auto simp: linkCalls_def Let_def)
  next
    case (Some entry)
    then have known: "?n \<in> fst ` set ext"
      by (auto dest!: map_of_SomeD intro!: image_eqI [where x = "(stringifyIdent d, entry)"])
    show ?thesis
    proof (cases "isSymbolicLink entry")
      case False
      with Some assms have c: "replaceLink X ?t ?q s = (s', r)" and e: "ext' = AList.delete ?n ext"
        by (auto simp: linkDependency_def Let_def split: prod.splits)
      from replaceLink_frame [OF c] e known show ?thesis
        by (auto simp: linkCalls_def Let_def)
    next
      case True
      obtain s1 r1 where rl: "readlinkPromise X ?q s = (s1, r1)"
        by (cases "readlinkPromise X ?q s")
      then have f1: "extends s s1" "newCalls s s1 = [ReadlinkCall ?q]"
        by (auto simp: readlinkPromise_def dest: readDisk_extends)
      show ?thesis
      proof (cases r1)
        case (Inl e)
        with Some True assms rl have "s' = s1" "r = Some e" "ext' = AList.delete ?n ext"
          by (auto simp: linkDependency_def Let_def)
        moreover from rl Inl have "\<exists>c. e = ErrnoError c"
          by (auto simp: readlinkPromise_def readDisk_def split: sum.splits)
        ultimately show ?thesis using f1 by (simp add: linkCalls_def Let_def)
      next
        case (Inr target)
        show ?thesis
        proof (cases "target = ?t")
          case eq: True
          with Inr Some True assms rl have "s' = s1" "r = None" "ext' = AList.delete ?n ext"
            by (auto simp: linkDependency_def Let_def)
          then show ?thesis using f1 by (simp add: linkCalls_def Let_def)
        next
          case neq: False
          with Inr Some True assms rl have c: "replaceLink X ?t ?q s1 = (s', r)"
            and e: "ext' = AList.delete ?n ext"
            by (auto simp: linkDependency_def Let_def split: prod.splits)
          from replaceLink_frame [OF c] have f2: "extends s1 s'"
            "\<forall>e. r = Some e \<longrightarrow> (\<exists>c. e = ErrnoError c)"
            "set (newCalls s1 s') \<subseteq> {RemoveCall ?q, MkdirpCall (ppath_dirname ?q), SymlinkCall ?t ?q}"
            by auto
          have "extends s s'" using f1(1) f2(1) by (rule extends_trans)
          moreover have "newCalls s s' = newCalls s s1 @ newCalls s1 s'"
            using f1(1) f2(1) by (rule newCalls_trans)
          ultimately show ?thesis using f1 f2 e known
            by (auto simp: linkCalls_def Let_def)
        qed
      qed
    qed
  qed
qed

lemma linkCalls_each:
  "linkCalls nm n src known cs \<Longrightarrow> c \<in> set cs \<Longrightarrow> linkCalls nm n src known [c]"
  by (auto simp: linkCalls_def Let_def)

lemma linkCalls_known:
  "linkCalls nm n src known cs \<Longrightarrow> (known \<Longrightarrow> known') \<Longrightarrow> linkCalls nm n src known' cs"
  by (auto simp: linkCalls_def Let_def)

lemma delete_keys: "fst ` set (AList.delete k al) = fst ` set al - {k}"
  by (induction al) auto

lemma linkDependencies_frame:
  "linkDependencies X U nm deps ext s = (s', ext', r) \<Longrightarrow>
     extends s s' \<and> fst ` set ext' \<subseteq> fst ` set ext
     \<and> (\<forall>c\<in>set (newCalls s s'). depCall U s nm deps ext c)
     \<and> (r = None \<longrightarrow> fst ` set ext' = fst ` set ext - (stringifyIdent \<circ> fst) ` set deps
          \<and> (\<forall>(d, dep)\<in>set deps. depSrcPathOf U s dep \<noteq> None))
     \<and> (\<forall>e. r = Some e \<longrightarrow>
          (\<exists>c. e = ErrnoError c)
          \<or> (\<exists>d dep. (d, dep) \<in> set deps \<and> depSrcPathOf U s dep = None \<and> e = notRegistered dep))"
proof (induction deps arbitrary: ext s)
  case Nil
  then show ?case by simp
next
  case (Cons pair deps)
  obtain d dep where pair: "pair = (d, dep)" by (cases pair)
  show ?case
  proof (cases "depSrcPathOf U s dep")
    case None
    with Cons.prems pair have "s' = s" "ext' = ext" "r = Some (notRegistered dep)"
      by (simp_all add: linkDependency_unregistered)
    with None pair show ?thesis by auto
  next
    case (Some src)
    obtain s1 ext1 r1 where l: "linkDependency X U nm (d, dep) ext s = (s1, ext1, r1)"
      by (cases "linkDependency X U nm (d, dep) ext s") auto
    from linkDependency_frame [OF l Some] have f1: "extends s s1"
      "ext1 = AList.delete (stringifyIdent d) ext"
      "\<forall>e. r1 = Some e \<longrightarrow> (\<exists>c. e = ErrnoError c)"
      "linkCalls nm (stringifyIdent d) src (stringifyIdent d \<in> fst ` set ext) (newCalls s s1)"
      by simp_all
    have c1: "\<forall>c\<in>set (newCalls s s1). depCall U s nm (pair # deps) ext c"
      unfolding depCall_def using Some pair linkCalls_each [OF f1(4)] by fastforce
    show ?thesis
    proof (cases r1)
      case (Some e)
      with Cons.prems pair l have "s' = s1" "ext' = ext1" "r = Some e" by simp_all
      with f1 c1 Some show ?thesis by (auto simp: delete_keys)
    next
      case None
      with Cons.prems pair l have rest: "linkDependencies X U nm deps ext1 s1 = (s', ext', r)"
        by simp
      from Cons.IH [OF rest] have ih: "extends s1 s'" "fst ` set ext' \<subseteq> fst ` set ext1"
        "\<forall>c\<in>set (newCalls s1 s'). depCall U s1 nm deps ext1 c"
        "r = None \<longrightarrow> fst ` set ext' = fst ` set ext1 - (stringifyIdent \<circ> fst) ` set deps
          \<and> (\<forall>(d, dep)\<in>set deps. depSrcPathOf U s1 dep \<noteq> None)"
        "\<forall>e. r = Some e \<longrightarrow>
          (\<exists>c. e = ErrnoError c)
          \<or> (\<exists>d dep. (d, dep) \<in> set deps \<and> depSrcPathOf U s1 dep = None \<and> e = notRegistered dep)"
        by simp_all
      have same: "\<And>l. depSrcPathOf U s1 l = depSrcPathOf U s l"
        using f1(1) by (rule extends_depSrcPathOf)
      have e: "extends s s'" using f1(1) ih(1) by (rule extends_trans)
      have n: "newCalls s s' = newCalls s s1 @ newCalls s1 s'"
        using f1(1) ih(1) by (rule newCalls_trans)
      have c2: "\<forall>c\<in>set (newCalls s1 s'). depCall U s nm (pair # deps) ext c"
      proof
        fix c assume "c \<in> set (newCalls s1 s')"
        with ih(3) obtain d' dep' src' where h: "(d', dep') \<in> set deps"
          "depSrcPathOf U s1 dep' = Some src'"
          "linkCalls nm (stringifyIdent d') src' (stringifyIdent d' \<in> fst ` set ext1) [c]"
          unfolding depCall_def by blast
        have "linkCalls nm (stringifyIdent d') src' (stringifyIdent d' \<in> fst ` set ext) [c]"
          using h(3) by (rule linkCalls_known) (simp add: f1(2) delete_keys)
        with h same show "depCall U s nm (pair # deps) ext c"
          unfolding depCall_def by auto
      qed
      have k: "fst ` set ext' \<subseteq> fst ` set ext" using ih(2) f1(2) by (auto simp: delete_keys)
      have ok: "r = None \<longrightarrow> fst ` set ext' = fst ` set ext - (stringifyIdent \<circ> fst) ` set (pair # deps)
          \<and> (\<forall>(d, dep)\<in>set (pair # deps). depSrcPathOf U s dep \<noteq> None)"
        using ih(4) f1(2) pair \<open>depSrcPathOf U s dep = Some src\<close> same
        by (auto simp: delete_keys)
      have err: "\<forall>e. r = Some e \<longrightarrow>
          (\<exists>c. e = ErrnoError c)
          \<or> (\<exists>d dep. (d, dep) \<in> set (pair # deps) \<and> depSrcPathOf U s dep = None \<and> e = notRegistered dep)"
        using ih(5) same by auto
      from e n c1 c2 k ok err show ?thesis by auto
    qed
  qed
qed

lemma linkDependencies_unregistered:
  "find (\<lambda>(d, dep). depSrcPathOf U s dep = None) deps = Some (d, dep) \<Longrightarrow>
   linkDependencies X U nm deps ext s = (s', ext', r) \<Longrightarrow>
   \<exists>e. r = Some e \<and> (e = notRegistered dep \<or> (\<exists>c. e = ErrnoError c))"
proof (induction deps arbitrary: ext s)
  case Nil
  then show ?case by simp
next
  case (Cons pair deps)
  obtain d0 dep0 where pair: "pair = (d0, dep0)" by (cases pair)
  show ?case
  proof (cases "depSrcPathOf U s dep0")
    case None
    with Cons.prems pair show ?thesis by (auto simp: linkDependency_unregistered)
  next
    case (Some src)
    with Cons.prems(1) pair have f: "find (\<lambda>(d, dep). depSrcPathOf U s dep = None) deps = Some (d, dep)"
      by simp
    obtain s1 ext1 r1 where l: "linkDependency X U nm (d0, dep0) ext s = (s1, ext1, r1)"
      by (cases "linkDependency X U nm (d0, dep0) ext s") auto
    from linkDependency_frame [OF l Some] have f1: "extends s s1"
      "\<forall>e. r1 = Some e \<longrightarrow> (\<exists>c. e = ErrnoError c)" by simp_all
    show ?thesis
    proof (cases r1)
      case (Some e)
      with Cons.prems(2) pair l f1 show ?thesis by auto
    next
      case None
      with Cons.prems(2) pair l have rest: "linkDependencies X U nm deps ext1 s1 = (s', ext', r)"
        by simp
      have "\<And>l. depSrcPathOf U s1 l = depSrcPathOf U s l"
        using f1(1) by (rule extends_depSrcPathOf)
      with f have "find (\<lambda>(d, dep). depSrcPathOf U s1 dep = None) deps = Some (d, dep)" by simp
      from Cons.IH [OF this rest] show ?thesis .
    qed
  qed
qed

lemma removeExtraneous_frame:
  "removeExtraneous X nm ns s = (s', r) \<Longrightarrow>
     extends s s' \<and> (\<forall>c\<in>set (newCalls s s'). \<exists>k\<in>set ns. c = RemoveCall (ppath_join nm k))
     \<and> (\<forall>e. r = Inl e \<longrightarrow> (\<exists>c. e = ErrnoError c))
     \<and> (ns = [] \<longrightarrow> s' = s \<and> r = Inr ())"
proof (induction ns arbitrary: s)
  case Nil
  then show ?case by auto
next
  case (Cons k ns)
  obtain s1 r1 where rm: "removePromise X (ppath_join nm k) s = (s1, r1)"
    by (cases "removePromise X (ppath_join nm k) s")
  then have f1: "extends s s1" "newCalls s s1 = [RemoveCall (ppath_join nm k)]"
    by (auto simp: removePromise_def dest: editDisk_extends)
  show ?case
  proof (cases r1)
    case (Inl e)
    with Cons.prems rm have "s' = s1" "r = Inl e" by simp_all
    moreover from rm Inl have "\<exists>c. e = ErrnoError c"
      by (auto simp: removePromise_def editDisk_def split: sum.splits)
    ultimately show ?thesis using f1 by simp
  next
    case (Inr u)
    with Cons.prems rm have "removeExtraneous X nm ns s1 = (s', r)" by simp
    from Cons.IH [OF this] have ih: "extends s1 s'"
      "\<forall>c\<in>set (newCalls s1 s'). \<exists>k\<in>set ns. c = RemoveCall (ppath_join nm k)"
      "\<forall>e. r = Inl e \<longrightarrow> (\<exists>c. e = ErrnoError c)" by simp_all
    have "extends s s'" using f1(1) ih(1) by (rule extends_trans)
    moreover have "newCalls s s' = newCalls s s1 @ newCalls s1 s'"
      using f1(1) ih(1) by (rule newCalls_trans)
    ultimately show ?thesis using f1 ih by auto
  qed
qed

lemma depCall_not_population: "depCall U s nm deps ext c \<Longrightarrow> \<not> populationCall c"
  by (auto simp: depCall_def linkCalls_def Let_def populationCall_def)


lemma depCall_symlink:
  "depCall U s nm deps ext (SymlinkCall t q) \<Longrightarrow>
   \<exists>d dep src. (d, dep) \<in> set deps \<and> depSrcPathOf U s dep = Some src
      \<and> q = ppath_join nm (stringifyIdent d) \<and> t = ppath_relative (ppath_dirname q) src"
  by (auto simp: depCall_def linkCalls_def Let_def)

lemma reconcile_frame:
  assumes "reconcile X U nm deps ext s = (s', r)"
  shows "extends s s'
     \<and> (\<forall>c\<in>set (newCalls s s'). depCall U s nm deps ext c
           \<or> (\<exists>k\<in>fst ` set ext. c = RemoveCall (ppath_join nm k)))
     \<and> (\<forall>e. r = Inl e \<longrightarrow>
          (\<exists>c. e = ErrnoError c)
          \<or> (\<exists>d dep. (d, dep) \<in> set deps \<and> depSrcPathOf U s dep = None \<and> e = notRegistered dep))
     \<and> (r = Inr () \<longrightarrow> (\<forall>(d, dep)\<in>set deps. depSrcPathOf U s dep \<noteq> None))"
proof -
  obtain s1 ext1 r1 where l: "linkDependencies X U nm deps ext s = (s1, ext1, r1)"
    by (cases "linkDependencies X U nm deps ext s") auto
  note f1 = linkDependencies_frame [OF l]
  show ?thesis
  proof (cases r1)
    case (Some e)
    with assms l have "s' = s1" "r = Inl e" by (simp_all add: reconcile_def)
    with f1 Some show ?thesis by auto
  next
    case None
    with assms l have rm: "removeExtraneous X nm (map fst ext1) s1 = (s', r)"
      by (simp add: reconcile_def)
    from removeExtraneous_frame [OF rm] have f2: "extends s1 s'"
      "\<forall>c\<in>set (newCalls s1 s'). \<exists>k\<in>set (map fst ext1). c = RemoveCall (ppath_join nm k)"
      "\<forall>e. r = Inl e \<longrightarrow> (\<exists>c. e = ErrnoError c)" by simp_all
    from f1 have e1: "extends s s1" by simp
    have "extends s s'" using e1 f2(1) by (rule extends_trans)
    moreover have "newCalls s s' = newCalls s s1 @ newCalls s1 s'"
      using e1 f2(1) by (rule newCalls_trans)
    moreover have "\<forall>c\<in>set (newCalls s1 s'). \<exists>k\<in>fst ` set ext. c = RemoveCall (ppath_join nm k)"
    proof
      fix c assume "c \<in> set (newCalls s1 s')"
      with f2(2) obtain k where k: "k \<in> set (map fst ext1)" "c = RemoveCall (ppath_join nm k)"
        by blast
      from f1 have "fst ` set ext1 \<subseteq> fst ` set ext" by blast
      with k(1) have "k \<in> fst ` set ext" by auto
      with k(2) show "\<exists>k\<in>fst ` set ext. c = RemoveCall (ppath_join nm k)" by blast
    qed
    ultimately show ?thesis using f1 f2(3) None by auto
  qed
qed

lemma reconcile_unregistered:
  assumes "find (\<lambda>(d, dep). depSrcPathOf U s dep = None) deps = Some (d, dep)"
    and "reconcile X U nm deps ext s = (s', r)"
  shows "r = Inl (notRegistered dep) \<or> (\<exists>c. r = Inl (ErrnoError c))"
proof -
  obtain s1 ext1 r1 where l: "linkDependencies X U nm deps ext s = (s1, ext1, r1)"
    by (cases "linkDependencies X U nm deps ext s") auto
  from linkDependencies_unregistered [OF assms(1) l] obtain e where
    "r1 = Some e" "e = notRegistered dep \<or> (\<exists>c. e = ErrnoError c)" by blast
  with assms(2) l show ?thesis by (auto simp: reconcile_def)
qed

lemma reconcileDirectory_frame:
  assumes "reconcileDirectory X U pkgPath deps s = (s', r)"
  shows "extends s s'
     \<and> (\<exists>rest. newCalls s s' = MkdirpCall (ppath_join pkgPath ''node_modules'') # rest
           \<and> (\<forall>c\<in>set rest. \<not> populationCall c))
     \<and> (\<forall>e. r = Inl e \<longrightarrow>
          (\<exists>c. e = ErrnoError c)
          \<or> (\<exists>d dep. (d, dep) \<in> set deps \<and> depSrcPathOf U s dep = None \<and> e = notRegistered dep))"
proof -
  let ?nm = "ppath_join pkgPath ''node_modules''"
  obtain s2 r2 where mk: "mkdirpPromise X ?nm s = (s2, r2)"
    by (cases "mkdirpPromise X ?nm s")
  then have f1: "extends s s2" "newCalls s s2 = [MkdirpCall ?nm]"
    by (auto simp: mkdirpPromise_def dest: editDisk_extends)
  show ?thesis
  proof (cases r2)
    case (Inl e)
    with assms mk have "s' = s2" "r = Inl e" by (simp_all add: reconcileDirectory_def)
    moreover from mk Inl have "\<exists>c. e = ErrnoError c"
      by (auto simp: mkdirpPromise_def editDisk_def split: sum.splits)
    ultimately show ?thesis using f1 by simp
  next
    case (Inr u)
    obtain s3 ext r3 where ls: "listExtraneous X ?nm s2 = (s3, ext, r3)"
      by (cases "listExtraneous X ?nm s2") auto
    from listExtraneous_extends [OF ls] have f2: "extends s2 s3"
      "\<forall>c\<in>set (newCalls s2 s3). listingCall c"
      "\<forall>e. r3 = Some e \<longrightarrow> (\<exists>c. e = ErrnoError c)" by simp_all
    have e3: "extends s s3" using f1(1) f2(1) by (rule extends_trans)
    have n3: "newCalls s s3 = MkdirpCall ?nm # newCalls s2 s3"
      using newCalls_trans [OF f1(1) f2(1)] f1(2) by simp
    have l3: "\<forall>c\<in>set (newCalls s2 s3). \<not> populationCall c"
      using f2(2) by (auto simp: listingCall_def populationCall_def split: xfs_call.splits)
    show ?thesis
    proof (cases r3)
      case (Some e)
      with assms mk Inr ls have "s' = s3" "r = Inl e" by (simp_all add: reconcileDirectory_def)
      with e3 n3 l3 f2(3) Some show ?thesis by simp
    next
      case None
      with assms mk Inr ls have rc: "reconcile X U ?nm deps ext s3 = (s', r)"
        by (simp add: reconcileDirectory_def)
      from reconcile_frame [OF rc] have f4: "extends s3 s'"
        "\<forall>c\<in>set (newCalls s3 s'). depCall U s3 ?nm deps ext c
           \<or> (\<exists>k\<in>fst ` set ext. c = RemoveCall (ppath_join ?nm k))"
        "\<forall>e. r = Inl e \<longrightarrow>
          (\<exists>c. e = ErrnoError c)
          \<or> (\<exists>d dep. (d, dep) \<in> set deps \<and> depSrcPathOf U s3 dep = None \<and> e = notRegistered dep)"
        by simp_all
      have same: "\<And>l. depSrcPathOf U s3 l = depSrcPathOf U s l"
        using e3 by (rule extends_depSrcPathOf)
      have "extends s s'" using e3 f4(1) by (rule extends_trans)
      moreover have "newCalls s s' = MkdirpCall ?nm # newCalls s2 s3 @ newCalls s3 s'"
        using newCalls_trans [OF e3 f4(1)] n3 by simp
      moreover have "\<forall>c\<in>set (newCalls s3 s'). \<not> populationCall c"
      proof
        fix c assume "c \<in> set (newCalls s3 s')"
        with f4(2) have "depCall U s3 ?nm deps ext c
           \<or> (\<exists>k\<in>fst ` set ext. c = RemoveCall (ppath_join ?nm k))" by blast
        then show "\<not> populationCall c"
          by (auto dest: depCall_not_population simp: populationCall_def)
      qed
      ultimately show ?thesis using l3 f4(3) same by auto
    qed
  qed
qed

section \<open>The claims\<close>


text \<open>
  C2, as the code has it. Once the pending copies have settled without a rejection,
  \<open>attachInternalDependencies\<close> returns at once, the state being the one the copies left,
  exactly when the dependent is virtual and is a workspace. For every other dependent it
  goes on: it throws the assertion error when the dependent has no location, and
  otherwise its first call creates the dependency directory.
\<close>

theorem skipped_dependents:
  assumes "awaitPendingCopies X s = (s1, Inr ())"
  shows "(isVirtualLocator U locator \<and> tryWorkspaceByLocator (opts s) locator \<noteq> None \<longrightarrow>
            attachInternalDependencies X U locator dependencies s = (s1, Inr ()))
       \<and> (\<not> (isVirtualLocator U locator \<and> tryWorkspaceByLocator (opts s) locator \<noteq> None) \<longrightarrow>
            (case locations s (locatorHash locator) of
               None \<Rightarrow>
                 attachInternalDependencies X U locator dependencies s =
                   (s1, Inl (notRegistered locator))
             | Some pkgPath \<Rightarrow>
                 (\<exists>rest. calls (fst (attachInternalDependencies X U locator dependencies s)) =
                    calls s1 @ MkdirpCall (ppath_join pkgPath ''node_modules'') # rest)))"
proof -
  note f = awaitPendingCopies_frame [OF assms]
  have c: "isPnpmVirtualCompatible U s1 locator =
    (\<not> (isVirtualLocator U locator \<and> tryWorkspaceByLocator (opts s) locator \<noteq> None))"
    using f(1) by (auto simp: isPnpmVirtualCompatible_def)
  show ?thesis
  proof (intro conjI impI)
    assume "isVirtualLocator U locator \<and> tryWorkspaceByLocator (opts s) locator \<noteq> None"
    with c assms show "attachInternalDependencies X U locator dependencies s = (s1, Inr ())"
      by (simp add: attachInternalDependencies_def)
  next
    assume n: "\<not> (isVirtualLocator U locator \<and> tryWorkspaceByLocator (opts s) locator \<noteq> None)"
    show "case locations s (locatorHash locator) of
               None \<Rightarrow>
                 attachInternalDependencies X U locator dependencies s =
                   (s1, Inl (notRegistered locator))
             | Some pkgPath \<Rightarrow>
                 (\<exists>rest. calls (fst (attachInternalDependencies X U locator dependencies s)) =
                    calls s1 @ MkdirpCall (ppath_join pkgPath ''node_modules'') # rest)"
    proof (cases "locations s (locatorHash locator)")
      case None
      with n c assms f(2) show ?thesis by (simp add: attachInternalDependencies_def)
    next
      case (Some pkgPath)
      obtain s' r where rd: "reconcileDirectory X U pkgPath dependencies s1 = (s', r)"
        by (cases "reconcileDirectory X U pkgPath dependencies s1")
      with Some n c assms f(2) have a: "attachInternalDependencies X U locator dependencies s = (s', r)"
        by (simp add: attachInternalDependencies_def)
      from reconcileDirectory_frame [OF rd] obtain rest where g: "extends s1 s'"
        "newCalls s1 s' = MkdirpCall (ppath_join pkgPath ''node_modules'') # rest" by blast
      from extends_calls [OF g(1)] g(2) a Some show ?thesis by simp
    qed
  qed
qed

text \<open>
  C9. For every locator and every list of paths, \<open>attachExternalDependents\<close> throws the
  error that external dependencies are not implemented, and the state is as it was.
\<close>

theorem external_dependents_unsupported:
  "attachExternalDependents locator dependentPaths s =
     (s, Inl (Error ''External dependencies haven't been implemented for the pnpm linker''))"
  by (simp add: attachExternalDependents_def)

text \<open>
  C1, as the code has it. The path a dependency is linked to is the location of its
  devirtualized locator when the dependency is virtual and is a workspace, and the
  location of the dependency itself when it is virtual and no workspace, or not virtual.
  Every link that the loop body creates for the pair is named after the descriptor and
  points to that path, relative to the directory of the link.
\<close>

theorem link_source_of_dependency:
  "(isVirtualLocator U dependency \<and> tryWorkspaceByLocator (opts s) dependency \<noteq> None \<longrightarrow>
      depSrcPathOf U s dependency = locations s (locatorHash (devirtualizeLocator U dependency)))
   \<and> (isVirtualLocator U dependency \<and> tryWorkspaceByLocator (opts s) dependency = None \<longrightarrow>
      depSrcPathOf U s dependency = locations s (locatorHash dependency))
   \<and> (\<not> isVirtualLocator U dependency \<longrightarrow>
      depSrcPathOf U s dependency = locations s (locatorHash dependency))
   \<and> (\<forall>s' extraneous' r target p.
        linkDependency X U nmPath (descriptor, dependency) extraneous s = (s', extraneous', r)
        \<and> SymlinkCall target p \<in> set (newCalls s s') \<longrightarrow>
        (\<exists>src. depSrcPathOf U s dependency = Some src
           \<and> p = ppath_join nmPath (stringifyIdent descriptor)
           \<and> target = ppath_relative (ppath_dirname p) src))"
proof (intro conjI allI impI)
  fix s' extraneous' r target p
  assume a: "linkDependency X U nmPath (descriptor, dependency) extraneous s = (s', extraneous', r)
        \<and> SymlinkCall target p \<in> set (newCalls s s')"
  show "\<exists>src. depSrcPathOf U s dependency = Some src
           \<and> p = ppath_join nmPath (stringifyIdent descriptor)
           \<and> target = ppath_relative (ppath_dirname p) src"
  proof (cases "depSrcPathOf U s dependency")
    case None
    with a show ?thesis by (auto simp: linkDependency_unregistered)
  next
    case (Some src)
    from a linkDependency_frame [OF _ Some] have
      "linkCalls nmPath (stringifyIdent descriptor) src
         (stringifyIdent descriptor \<in> fst ` set extraneous) (newCalls s s')" by blast
    with a Some show ?thesis by (auto simp: linkCalls_def Let_def)
  qed
qed (auto simp: depSrcPathOf_def targetDependency_def isPnpmVirtualCompatible_def)

text \<open>
  C6, as the code has it, for a dependent that is reconciled (one that is not a virtual
  workspace). When the dependent has no location the call fails, with the assertion
  error and no edit once the pending copies have settled without a rejection. When a
  dependency's target has no location the call fails as well; once the copies have
  settled, the error is the assertion error for the first such dependency, unless the
  filesystem failed before.
\<close>

theorem unregistered_locators_are_fatal:
  assumes "isPnpmVirtualCompatible U s locator"
  shows "(locations s (locatorHash locator) = None \<longrightarrow>
            (\<exists>e. snd (attachInternalDependencies X U locator dependencies s) = Inl e)
            \<and> (\<forall>s1. awaitPendingCopies X s = (s1, Inr ()) \<longrightarrow>
                 attachInternalDependencies X U locator dependencies s =
                   (s1, Inl (notRegistered locator))))
       \<and> (\<forall>d dep. find (\<lambda>(d, dep). depSrcPathOf U s dep = None) dependencies = Some (d, dep) \<longrightarrow>
            (\<exists>e. snd (attachInternalDependencies X U locator dependencies s) = Inl e)
            \<and> (\<forall>s1. awaitPendingCopies X s = (s1, Inr ()) \<longrightarrow>
                 locations s (locatorHash locator) \<noteq> None \<longrightarrow>
                 snd (attachInternalDependencies X U locator dependencies s) =
                   Inl (notRegistered dep)
                 \<or> (\<exists>c. snd (attachInternalDependencies X U locator dependencies s) =
                       Inl (ErrnoError c))))"
proof -
  obtain s1 r1 where aw: "awaitPendingCopies X s = (s1, r1)"
    by (cases "awaitPendingCopies X s")
  note f = awaitPendingCopies_frame [OF aw]
  have c: "isPnpmVirtualCompatible U s1 locator"
    using assms f(1) by (simp add: isPnpmVirtualCompatible_def)
  have same: "\<And>l. depSrcPathOf U s1 l = depSrcPathOf U s l"
    using f(1,2) by (simp add: depSrcPathOf_def targetDependency_def isPnpmVirtualCompatible_def)
  have rejected: "\<exists>e. snd (attachInternalDependencies X U locator dependencies s) = Inl e"
    if "r1 \<noteq> Inr ()"
    using that f(7) aw by (auto simp: attachInternalDependencies_def)
  have dependent: "attachInternalDependencies X U locator dependencies s =
      (s1, Inl (notRegistered locator))"
    if "r1 = Inr ()" "locations s (locatorHash locator) = None"
    using that aw c f(2) by (simp add: attachInternalDependencies_def)
  have dependency: "snd (attachInternalDependencies X U locator dependencies s) =
        Inl (notRegistered dep)
      \<or> (\<exists>c. snd (attachInternalDependencies X U locator dependencies s) = Inl (ErrnoError c))"
    if ok: "r1 = Inr ()" and reg: "locations s (locatorHash locator) = Some pkgPath"
      and fnd: "find (\<lambda>(d, dep). depSrcPathOf U s dep = None) dependencies = Some (d, dep)"
    for pkgPath d dep
  proof -
    let ?nm = "ppath_join pkgPath ''node_modules''"
    obtain s' r where rd: "reconcileDirectory X U pkgPath dependencies s1 = (s', r)"
      by (cases "reconcileDirectory X U pkgPath dependencies s1")
    with ok reg aw c f(2) have a: "attachInternalDependencies X U locator dependencies s = (s', r)"
      by (simp add: attachInternalDependencies_def)
    obtain s2 r2 where mk: "mkdirpPromise X ?nm s1 = (s2, r2)"
      by (cases "mkdirpPromise X ?nm s1")
    then have e2: "extends s1 s2"
      by (auto simp: mkdirpPromise_def dest: editDisk_extends)
    show ?thesis
    proof (cases r2)
      case (Inl e)
      with rd mk have "r = Inl e" by (simp add: reconcileDirectory_def)
      moreover from mk Inl have "\<exists>c. e = ErrnoError c"
        by (auto simp: mkdirpPromise_def editDisk_def split: sum.splits)
      ultimately show ?thesis using a by auto
    next
      case (Inr u)
      obtain s3 ext r3 where ls: "listExtraneous X ?nm s2 = (s3, ext, r3)"
        by (cases "listExtraneous X ?nm s2") auto
      from listExtraneous_extends [OF ls] have f3: "extends s2 s3"
        "\<forall>e. r3 = Some e \<longrightarrow> (\<exists>c. e = ErrnoError c)" by simp_all
      show ?thesis
      proof (cases r3)
        case (Some e)
        with rd mk Inr ls have "r = Inl e" by (simp add: reconcileDirectory_def)
        with f3(2) Some a show ?thesis by auto
      next
        case None
        with rd mk Inr ls have rc: "reconcile X U ?nm dependencies ext s3 = (s', r)"
          by (simp add: reconcileDirectory_def)
        have "extends s1 s3" using e2 f3(1) by (rule extends_trans)
        then have "\<And>l. depSrcPathOf U s3 l = depSrcPathOf U s l"
          using same by (simp add: extends_depSrcPathOf)
        with fnd have "find (\<lambda>(d, dep). depSrcPathOf U s3 dep = None) dependencies = Some (d, dep)"
          by simp
        from reconcile_unregistered [OF this rc] a show ?thesis by auto
      qed
    qed
  qed
  show ?thesis
  proof (intro conjI allI impI)
    assume "locations s (locatorHash locator) = None"
    then show "\<exists>e. snd (attachInternalDependencies X U locator dependencies s) = Inl e"
      using rejected dependent by (cases "r1 = Inr ()") auto
  next
    fix s1' assume "locations s (locatorHash locator) = None" "awaitPendingCopies X s = (s1', Inr ())"
    with aw dependent show "attachInternalDependencies X U locator dependencies s =
                   (s1', Inl (notRegistered locator))" by simp
  next
    fix d dep
    assume fnd: "find (\<lambda>(d, dep). depSrcPathOf U s dep = None) dependencies = Some (d, dep)"
    show "\<exists>e. snd (attachInternalDependencies X U locator dependencies s) = Inl e"
    proof (cases "r1 = Inr ()")
      case False
      then show ?thesis by (rule rejected)
    next
      case True
      show ?thesis
      proof (cases "locations s (locatorHash locator)")
        case None
        with True dependent show ?thesis by simp
      next
        case (Some pkgPath)
        from dependency [OF True Some fnd] show ?thesis by auto
      qed
    qed
  next
    fix d dep s1'
    assume fnd: "find (\<lambda>(d, dep). depSrcPathOf U s dep = None) dependencies = Some (d, dep)"
      and "awaitPendingCopies X s = (s1', Inr ())"
      and reg: "locations s (locatorHash locator) \<noteq> None"
    with aw have ok: "r1 = Inr ()" by simp
    from reg obtain pkgPath where "locations s (locatorHash locator) = Some pkgPath" by auto
    from dependency [OF ok this fnd]
    show "snd (attachInternalDependencies X U locator dependencies s) =
                   Inl (notRegistered dep)
                 \<or> (\<exists>c. snd (attachInternalDependencies X U locator dependencies s) =
                       Inl (ErrnoError c))" .
  qed
qed








lemma startsWith_dot_at: "startsWith n ''@'' \<Longrightarrow> \<not> startsWith (n @ CHR ''/'' # m) ''.''"
  by (cases n) (auto simp: startsWith_def)





lemmas demo_defs = makeLocator_def makeDescriptor_def demoUtils_def demoOpts_def app_def lib_def
  virtualLib_def leftPad_def reactDom_def virtualReactDom_def typesNode_def store_def
  demoLocations_def demoDisk_def demoInstaller_def demoDependencies_def

lemma demo_await: "awaitPendingCopies X demoInstaller = (demoInstaller, Inr ())"
  by (simp add: awaitPendingCopies_def demoInstaller_def)

text \<open>
  The theorem of C1 on the virtual workspace \<open>lib\<close>: it is linked to the location of the
  workspace.
\<close>

theorem link_source_of_dependency_witness:
  "isVirtualLocator demoUtils virtualLib
   \<and> tryWorkspaceByLocator (opts demoInstaller) virtualLib \<noteq> None
   \<and> depSrcPathOf demoUtils demoInstaller virtualLib =
       locations demoInstaller (locatorHash (devirtualizeLocator demoUtils virtualLib))
   \<and> locations demoInstaller (locatorHash (devirtualizeLocator demoUtils virtualLib)) =
       Some [''proj'', ''lib'']"
proof -
  have h: "isVirtualLocator demoUtils virtualLib
     \<and> tryWorkspaceByLocator (opts demoInstaller) virtualLib \<noteq> None"
    by code_simp
  have v: "locations demoInstaller (locatorHash (devirtualizeLocator demoUtils virtualLib)) =
       Some [''proj'', ''lib'']"
    by code_simp
  from h v link_source_of_dependency [where U = demoUtils and dependency = virtualLib and s = demoInstaller]
  show ?thesis by blast
qed

text \<open>
  C1 as the spec states it fails: \<open>react-dom\<close> is virtual and no workspace, and it is linked
  to its own slot, not to the slot of its devirtualized locator.
\<close>

theorem link_source_of_dependency_counterexample:
  "isVirtualLocator demoUtils virtualReactDom
   \<and> tryWorkspaceByLocator (opts demoInstaller) virtualReactDom = None
   \<and> depSrcPathOf demoUtils demoInstaller virtualReactDom =
       Some (store ''react-dom-virtual7cnpm18.2.0'')
   \<and> locations demoInstaller (locatorHash (devirtualizeLocator demoUtils virtualReactDom)) =
       Some (store ''react-dom-npm18.2.0'')
   \<and> depSrcPathOf demoUtils demoInstaller virtualReactDom \<noteq>
       locations demoInstaller (locatorHash (devirtualizeLocator demoUtils virtualReactDom))"
  by code_simp

text \<open>
  The theorem of C2 on the virtual workspace \<open>lib\<close>, which is skipped, and on \<open>app\<close>, which
  is not.
\<close>

theorem skipped_dependents_witness:
  "attachInternalDependencies model_xfs demoUtils virtualLib demoDependencies demoInstaller =
     (demoInstaller, Inr ())
   \<and> (\<exists>rest. calls (fst (attachInternalDependencies model_xfs demoUtils app demoDependencies
                 demoInstaller)) =
         calls demoInstaller @ MkdirpCall (ppath_join [''proj''] ''node_modules'') # rest)"
proof -
  have v: "isVirtualLocator demoUtils virtualLib
     \<and> tryWorkspaceByLocator (opts demoInstaller) virtualLib \<noteq> None"
    by code_simp
  have a: "\<not> (isVirtualLocator demoUtils app
     \<and> tryWorkspaceByLocator (opts demoInstaller) app \<noteq> None)"
    by code_simp
  have l: "locations demoInstaller (locatorHash app) = Some [''proj'']"
    by code_simp
  from skipped_dependents [OF demo_await [of model_xfs], where U = demoUtils and locator = virtualLib
    and dependencies = demoDependencies] v
  have 1: "attachInternalDependencies model_xfs demoUtils virtualLib demoDependencies demoInstaller =
     (demoInstaller, Inr ())" by blast
  from skipped_dependents [OF demo_await [of model_xfs], where U = demoUtils and locator = app
    and dependencies = demoDependencies] a l
  have 2: "\<exists>rest. calls (fst (attachInternalDependencies model_xfs demoUtils app demoDependencies
                 demoInstaller)) =
         calls demoInstaller @ MkdirpCall (ppath_join [''proj''] ''node_modules'') # rest"
    by simp
  from 1 2 show ?thesis by blast
qed

text \<open>
  C2 as the spec states it fails: \<open>react-dom\<close> is virtual and devirtualizes to a package that
  is no workspace, and its directory is reconciled; the virtual \<open>lib\<close> devirtualizes to a
  workspace, and nothing is done for it.
\<close>

theorem skipped_dependents_counterexample:
  "isVirtualLocator demoUtils virtualReactDom
   \<and> tryWorkspaceByLocator (opts demoInstaller) (devirtualizeLocator demoUtils virtualReactDom) = None
   \<and> calls (fst (attachInternalDependencies model_xfs demoUtils virtualReactDom [] demoInstaller)) =
       [MkdirpCall (store ''react-dom-virtual7cnpm18.2.0'' @ [''node_modules'']),
        ReaddirCall (store ''react-dom-virtual7cnpm18.2.0'' @ [''node_modules''])]
   \<and> isVirtualLocator demoUtils virtualLib
   \<and> tryWorkspaceByLocator (opts demoInstaller) (devirtualizeLocator demoUtils virtualLib) =
       Some [''proj'', ''lib'']
   \<and> calls (fst (attachInternalDependencies model_xfs demoUtils virtualLib demoDependencies
         demoInstaller)) = []"
  by code_simp


text \<open>
  The theorem of C6 on a dependent without a location, and on a dependency without one.
\<close>

theorem unregistered_locators_are_fatal_witness:
  "isPnpmVirtualCompatible demoUtils demoInstaller unregistered
   \<and> locations demoInstaller (locatorHash unregistered) = None
   \<and> attachInternalDependencies model_xfs demoUtils unregistered demoDependencies demoInstaller =
       (demoInstaller, Inl (notRegistered unregistered))
   \<and> isPnpmVirtualCompatible demoUtils demoInstaller app
   \<and> find (\<lambda>(d, dep). depSrcPathOf demoUtils demoInstaller dep = None)
        [(makeDescriptor None ''left-pad'' ''npm:^1.0.0'', leftPad),
         (makeDescriptor None ''ghost'' ''npm:*'', unregistered)] =
       Some (makeDescriptor None ''ghost'' ''npm:*'', unregistered)
   \<and> snd (attachInternalDependencies model_xfs demoUtils app
        [(makeDescriptor None ''left-pad'' ''npm:^1.0.0'', leftPad),
         (makeDescriptor None ''ghost'' ''npm:*'', unregistered)] demoInstaller) =
       Inl (notRegistered unregistered)"
proof -
  have c1: "isPnpmVirtualCompatible demoUtils demoInstaller unregistered" by code_simp
  have n1: "locations demoInstaller (locatorHash unregistered) = None" by code_simp
  have c2: "isPnpmVirtualCompatible demoUtils demoInstaller app" by code_simp
  have f2: "find (\<lambda>(d, dep). depSrcPathOf demoUtils demoInstaller dep = None)
        [(makeDescriptor None ''left-pad'' ''npm:^1.0.0'', leftPad),
         (makeDescriptor None ''ghost'' ''npm:*'', unregistered)] =
       Some (makeDescriptor None ''ghost'' ''npm:*'', unregistered)" by code_simp
  have r2: "snd (attachInternalDependencies model_xfs demoUtils app
        [(makeDescriptor None ''left-pad'' ''npm:^1.0.0'', leftPad),
         (makeDescriptor None ''ghost'' ''npm:*'', unregistered)] demoInstaller) =
       Inl (notRegistered unregistered)" by code_simp
  from unregistered_locators_are_fatal [OF c1, where X = model_xfs
      and dependencies = demoDependencies] n1 demo_await [of model_xfs]
  have "attachInternalDependencies model_xfs demoUtils unregistered demoDependencies demoInstaller =
       (demoInstaller, Inl (notRegistered unregistered))" by blast
  with c1 n1 c2 f2 r2 show ?thesis by blast
qed

text \<open>
  C6 as the spec states it fails: the virtual workspace \<open>lib\<close> has no location and neither
  has its dependency, and the call returns normally, having checked nothing.
\<close>

theorem unregistered_locators_are_fatal_counterexample:
  "locations demoInstaller (locatorHash virtualLib) = None
   \<and> snd (attachInternalDependencies model_xfs demoUtils virtualLib
        [(makeDescriptor None ''ghost'' ''npm:*'', unregistered)] demoInstaller) = Inr ()
   \<and> calls (fst (attachInternalDependencies model_xfs demoUtils virtualLib
        [(makeDescriptor None ''ghost'' ''npm:*'', unregistered)] demoInstaller)) = []"
  by code_simp




text \<open>
  The theorem of C10 on a reconciliation of \<open>app\<close>.
\<close>

theorem custom_data_unobservable_witness:
  "snd (attachInternalDependencies model_xfs demoUtils app demoDependencies
          (attachCustomData (Some ''first'') demoInstaller)) =
     snd (attachInternalDependencies model_xfs demoUtils app demoDependencies
          (attachCustomData None demoInstaller))
   \<and> fst (attachInternalDependencies model_xfs demoUtils app demoDependencies
          (attachCustomData None demoInstaller)) =
     (fst (attachInternalDependencies model_xfs demoUtils app demoDependencies
          (attachCustomData (Some ''first'') demoInstaller)))\<lparr>customData := None\<rparr>"
  using custom_data_unobservable [where X = model_xfs and U = demoUtils and l = app
      and deps = demoDependencies and ?v1.0 = "Some ''first''" and ?v2.0 = None
      and s = demoInstaller]
  by blast

subsection \<open>The filesystem model\<close>

lemma slotAt_Nil [simp]: "slotAt d [] = Some d"
  by (simp add: slotAt_def)


lemma shapeAt_Nil [simp]: "shapeAt d [] = Some (shapeOf d)"
  by (simp add: shapeAt_def)












lemma entryName_direntOf [simp]: "entryName (direntOf n m) = n"
  by (simp add: direntOf_def split: node.splits)

lemma isSymbolicLink_direntOf [simp]:
  "isSymbolicLink (direntOf n m) = (\<exists>t. shapeOf m = IsLink t)"
  by (simp add: direntOf_def shapeOf_def split: node.splits)






subsection \<open>Names and paths\<close>

lemma segments_noslash: "CHR ''/'' \<notin> set n \<Longrightarrow> segments n = [n]"
  by (induction n) auto

lemma segments_slash:
  "CHR ''/'' \<notin> set a \<Longrightarrow> segments (a @ CHR ''/'' # b) = a # segments b"
  by (induction a) auto




lemma scoped_not_valid: "validName k \<Longrightarrow> k \<noteq> n @ CHR ''/'' # c"
  by (auto simp: validName_def)







lemma keyPath_not_dot: "keyPath nm k q \<Longrightarrow> \<not> startsWith k ''.''"
  by (auto simp: keyPath_def startsWith_dot_at)

lemma startsWith_at_Cons [simp]: "startsWith (CHR ''@'' # s) ''@''"
  by (simp add: startsWith_def)




lemma segments_joinWithSlash:
  "xs \<noteq> [] \<Longrightarrow> \<forall>x\<in>set xs. CHR ''/'' \<notin> set x \<Longrightarrow> segments (joinWithSlash xs) = xs"
proof (induction xs rule: joinWithSlash.induct)
  case 1
  then show ?case by simp
next
  case (2 s)
  then show ?case by (simp add: segments_noslash)
next
  case (3 s t ss)
  then show ?case by (simp add: segments_slash)
qed

lemma dropCommon_split:
  "dropCommon xs ys = (us, ds) \<Longrightarrow> \<exists>c. xs = c @ us \<and> ys = c @ ds"
proof (induction xs ys rule: dropCommon.induct)
  case (1 x xs y ys)
  show ?case
  proof (cases "x = y")
    case True
    with 1 obtain c where "xs = c @ us" "ys = c @ ds" by auto
    with True have "x # xs = (x # c) @ us \<and> y # ys = (x # c) @ ds" by simp
    then show ?thesis by blast
  next
    case False
    with 1 show ?thesis by auto
  qed
qed auto

lemma joinSegment_up: "joinSegment p ''..'' = butlast p"
  by (simp add: joinSegment_def)

lemma joinSegment_down: "validName seg \<Longrightarrow> joinSegment p seg = p @ [seg]"
  by (simp add: joinSegment_def validName_def)

lemma foldl_joinSegment_up:
  "foldl joinSegment (c @ us) (replicate (length us) ''..'' @ ds) = foldl joinSegment c ds"
proof (induction us rule: rev_induct)
  case Nil
  then show ?case by simp
next
  case (snoc u us)
  have "foldl joinSegment (c @ us @ [u]) (replicate (length (us @ [u])) ''..'' @ ds) =
        foldl joinSegment (joinSegment (c @ us @ [u]) ''..'') (replicate (length us) ''..'' @ ds)"
    by simp
  also have "joinSegment (c @ us @ [u]) ''..'' = c @ us"
    by (simp only: joinSegment_up butlast_snoc append_assoc [symmetric])
  finally show ?case using snoc by simp
qed

lemma foldl_joinSegment_down:
  "\<forall>seg\<in>set ds. validName seg \<Longrightarrow> foldl joinSegment c ds = c @ ds"
  by (induction ds arbitrary: c) (simp_all add: joinSegment_down)

lemma relative_resolves:
  assumes "\<forall>seg\<in>set to. validName seg"
  shows "ppath_join from (ppath_relative from to) = to"
proof -
  obtain us ds where dc: "dropCommon from to = (us, ds)" by (cases "dropCommon from to")
  from dropCommon_split [OF dc] obtain c where f: "from = c @ us" and t: "to = c @ ds" by blast
  from assms t have v: "\<forall>seg\<in>set ds. validName seg" by simp
  define xs where "xs = replicate (length us) ''..'' @ ds"
  have seg: "foldl joinSegment from (segments (joinWithSlash xs)) = to"
  proof (cases "xs = []")
    case True
    then have "us = []" "ds = []" by (simp_all add: xs_def)
    with f t True show ?thesis by (simp add: joinSegment_def)
  next
    case False
    have "\<forall>x\<in>set xs. CHR ''/'' \<notin> set x"
    proof
      fix x assume "x \<in> set xs"
      then have "x = ''..'' \<or> x \<in> set ds" by (auto simp: xs_def)
      then show "CHR ''/'' \<notin> set x"
      proof
        assume "x = ''..''"
        then show ?thesis by simp
      next
        assume "x \<in> set ds"
        with v have "validName x" by blast
        then show ?thesis by (simp add: validName_def)
      qed
    qed
    with False have "segments (joinWithSlash xs) = xs" by (rule segments_joinWithSlash)
    then have "foldl joinSegment from (segments (joinWithSlash xs)) =
        foldl joinSegment (c @ us) (replicate (length us) ''..'' @ ds)"
      using f by (simp add: xs_def)
    also have "\<dots> = foldl joinSegment c ds" by (rule foldl_joinSegment_up)
    also have "\<dots> = c @ ds" using v by (rule foldl_joinSegment_down)
    finally show ?thesis using t by simp
  qed
  have "ppath_relative from to = joinWithSlash xs"
    using dc by (simp add: ppath_relative_def xs_def)
  with seg show ?thesis by (simp add: ppath_join_def)
qed

lemma model_xfs_simps [simp]:
  "xfs_mkdirPromise model_xfs = model_mkdir"
  "xfs_copyPromise model_xfs = model_copy"
  "xfs_mkdirpPromise model_xfs = model_mkdirp"
  "xfs_readdirPromise model_xfs = model_readdir"
  "xfs_readlinkPromise model_xfs = model_readlink"
  "xfs_removePromise model_xfs = model_remove"
  "xfs_symlinkPromise model_xfs = model_symlink"
  by (simp_all add: model_xfs_def)

subsection \<open>The reconciliation on the filesystem model\<close>

lemma truthful_Nil [simp]: "truthful d nm []"
  by (simp add: truthful_def)

























lemma validName_node_modules [simp]: "validName ''node_modules''"
  by (simp add: validName_def)





subsection \<open>A second run\<close>













end
